(* ===== verification/Prelude.thy ===== *)
theory Prelude
  imports Main "HOL-Library.Word" "HOL-Library.AList" "HOL-Library.Multiset"
    "HOL-Library.Product_Lexorder"
begin

text \<open>
  Shared vocabulary of the development: the machine types of the Rust code, its
  \<open>Result\<close> type, \<open>std::cmp::Ordering\<close> with \<open>Iterator::max_by\<close>, big-endian
  byte encodings of integers, \<open>HashMap\<close> as an association list, and durations.
  The interface \<open>key_comparator\<close> (a comparator that compares keys of a linear order)
  carries the lemmas on \<open>max_by\<close> that the two leader selections of the code share.
\<close>

section \<open>Machine types and results\<close>

type_synonym u8 = "8 word"
type_synonym u16 = "16 word"
type_synonym u32 = "32 word"
type_synonym u64 = "64 word"
type_synonym bytes = "u8 list"
type_synonym ('e, 'a) result = "'e + 'a"

abbreviation Err :: "'e \<Rightarrow> ('e, 'a) result" where "Err \<equiv> Inl"
abbreviation Ok :: "'a \<Rightarrow> ('e, 'a) result" where "Ok \<equiv> Inr"

definition is_ok :: "('e, 'a) result \<Rightarrow> bool" where
  "is_ok r = (case r of Inl _ \<Rightarrow> False | Inr _ \<Rightarrow> True)"

lemma is_ok_simps [simp]: "is_ok (Ok a)" "\<not> is_ok (Err e)"
  by (simp_all add: is_ok_def)

definition ok :: "('e, 'a) result \<Rightarrow> 'a option" where
  "ok r = (case r of Inl _ \<Rightarrow> None | Inr a \<Rightarrow> Some a)"

lemma ok_simps [simp]: "ok (Ok a) = Some a" "ok (Err e) = None"
  by (simp_all add: ok_def)

definition unwrap_or :: "'a \<Rightarrow> 'a option \<Rightarrow> 'a" where
  "unwrap_or d m = (case m of None \<Rightarrow> d | Some a \<Rightarrow> a)"

lemma unwrap_or_simps [simp]: "unwrap_or d None = d" "unwrap_or d (Some a) = a"
  by (simp_all add: unwrap_or_def)

definition map_or :: "'b \<Rightarrow> ('a \<Rightarrow> 'b) \<Rightarrow> 'a option \<Rightarrow> 'b" where
  "map_or d f m = (case m of None \<Rightarrow> d | Some a \<Rightarrow> f a)"

lemma map_or_simps [simp]: "map_or d f None = d" "map_or d f (Some a) = f a"
  by (simp_all add: map_or_def)

text \<open>\<open>u64::saturating_sub\<close>.\<close>

definition saturating_sub :: "'w::len word \<Rightarrow> 'w word \<Rightarrow> 'w word" where
  "saturating_sub a b = (if a < b then 0 else a - b)"

lemma unat_saturating_sub: "unat (saturating_sub a b) = unat a - unat b"
  by (simp add: saturating_sub_def word_less_nat_alt unat_sub_if_size)

lemma unat_bound: "unat (x :: 'a::len word) < 2 ^ LENGTH('a)"
  by (rule unsigned_less)

text \<open>An increment below another value does not wrap.\<close>

lemma unat_inc: "(a :: u64) < b \<Longrightarrow> unat (a + 1) = unat a + 1"
  using unat_bound [of b] by (simp add: word_less_nat_alt unat_word_ariths)

lemma word_inc: "(a :: u64) < b \<Longrightarrow> a < a + 1 \<and> a + 1 \<le> b"
  by (simp add: word_less_nat_alt word_le_nat_alt unat_inc)

section \<open>Durations and instants\<close>

text \<open>
  An instant is a number of nanoseconds on the process's monotonic clock;
  \<open>Instant::duration_since\<close> saturates at zero, as subtraction on \<^typ>\<open>nat\<close> does.
\<close>

type_synonym instant = nat
type_synonym duration = nat

definition from_millis :: "nat \<Rightarrow> duration" where
  "from_millis n = n * 1000000"

definition duration_since :: "instant \<Rightarrow> instant \<Rightarrow> duration" where
  "duration_since later earlier = later - earlier"

section \<open>Ordering and Iterator::max_by\<close>

datatype ordering = Less | Equal | Greater

definition ordering_then :: "ordering \<Rightarrow> ordering \<Rightarrow> ordering" where
  "ordering_then a b = (case a of Equal \<Rightarrow> b | _ \<Rightarrow> a)"

definition cmp :: "'a::linorder \<Rightarrow> 'a \<Rightarrow> ordering" where
  "cmp a b = (if a < b then Less else if a = b then Equal else Greater)"

lemma ordering_then_simps [simp]:
  "ordering_then Less b = Less" "ordering_then Equal b = b" "ordering_then Greater b = Greater"
  by (simp_all add: ordering_then_def)

text \<open>\<open>max_by\<close> folds from the left and keeps the later of two equal elements.\<close>

definition max_by :: "('a \<Rightarrow> 'a \<Rightarrow> ordering) \<Rightarrow> 'a list \<Rightarrow> 'a option" where
  "max_by f xs = (case xs of [] \<Rightarrow> None
     | x # ys \<Rightarrow> Some (foldl (\<lambda>m y. if f m y = Greater then m else y) x ys))"

lemma max_by_Nil [simp]: "max_by f [] = None"
  by (simp add: max_by_def)

lemma max_by_eq_None [simp]: "max_by f xs = None \<longleftrightarrow> xs = []"
  by (simp add: max_by_def split: list.split)

locale key_comparator =
  fixes f :: "'a \<Rightarrow> 'a \<Rightarrow> ordering" and key :: "'a \<Rightarrow> 'k::linorder"
  assumes f_greater: "f x y = Greater \<longleftrightarrow> key y < key x"
begin

lemma foldl_max_in:
  "foldl (\<lambda>m y. if f m y = Greater then m else y) x ys \<in> insert x (set ys)"
proof (induction ys arbitrary: x)
  case (Cons y ys)
  show ?case
    using Cons.IH [of "if f x y = Greater then x else y"] by auto
qed simp

lemma foldl_max_ge:
  "z \<in> insert x (set ys) \<Longrightarrow>
     key z \<le> key (foldl (\<lambda>m y. if f m y = Greater then m else y) x ys)"
proof (induction ys arbitrary: x z)
  case (Cons y ys)
  let ?m = "if f x y = Greater then x else y"
  have "key x \<le> key ?m" "key y \<le> key ?m" by (auto simp: f_greater)
  moreover have "key ?m \<le> key (foldl (\<lambda>m y. if f m y = Greater then m else y) ?m ys)"
    by (rule Cons.IH) simp
  ultimately show ?case
    using Cons.IH [of z ?m] Cons.prems by (auto intro: order_trans)
qed simp

lemma max_by_in: "max_by f xs = Some m \<Longrightarrow> m \<in> set xs"
  using foldl_max_in by (fastforce simp: max_by_def split: list.splits)

lemma max_by_ge: "max_by f xs = Some m \<Longrightarrow> x \<in> set xs \<Longrightarrow> key x \<le> key m"
  using foldl_max_ge by (fastforce simp: max_by_def split: list.splits)

text \<open>With distinct keys the result does not depend on the order of iteration.\<close>

lemma max_by_unique:
  "inj_on key (set xs) \<Longrightarrow> m \<in> set xs \<Longrightarrow> (\<And>x. x \<in> set xs \<Longrightarrow> key x \<le> key m) \<Longrightarrow>
     max_by f xs = Some m"
proof -
  assume inj: "inj_on key (set xs)" and m: "m \<in> set xs"
    and ge: "\<And>x. x \<in> set xs \<Longrightarrow> key x \<le> key m"
  obtain m' where m': "max_by f xs = Some m'"
    using m by (cases "max_by f xs") auto
  have "key m = key m'"
    using ge [OF max_by_in [OF m']] max_by_ge [OF m' m] by simp
  then show ?thesis using inj m max_by_in [OF m'] m' by (auto dest: inj_onD)
qed

lemma max_by_set_eq:
  "inj_on key (set xs) \<Longrightarrow> set xs = set ys \<Longrightarrow> max_by f xs = max_by f ys"
proof -
  assume inj: "inj_on key (set xs)" and eq: "set xs = set ys"
  show ?thesis
  proof (cases "max_by f xs")
    case None
    then show ?thesis using eq by simp
  next
    case (Some m)
    have "max_by f ys = Some m"
      using inj eq max_by_in [OF Some] max_by_ge [OF Some] by (intro max_by_unique) auto
    with Some show ?thesis by simp
  qed
qed

end

section \<open>Big-endian integers\<close>

text \<open>\<open>to_be_bytes\<close> of a \<open>k\<close>-byte unsigned integer, and \<open>from_be_bytes\<close>.\<close>

fun nat_to_be :: "nat \<Rightarrow> nat \<Rightarrow> bytes" where
  "nat_to_be 0 x = []"
| "nat_to_be (Suc k) x = nat_to_be k (x div 256) @ [word_of_nat (x mod 256)]"

definition nat_from_be :: "bytes \<Rightarrow> nat" where
  "nat_from_be bs = foldl (\<lambda>acc b. acc * 256 + unat b) 0 bs"

definition to_be_u64 :: "u64 \<Rightarrow> bytes" where "to_be_u64 x = nat_to_be 8 (unat x)"
definition from_be_u64 :: "bytes \<Rightarrow> u64" where "from_be_u64 bs = word_of_nat (nat_from_be bs)"
definition to_be_u32 :: "u32 \<Rightarrow> bytes" where "to_be_u32 x = nat_to_be 4 (unat x)"
definition from_be_u32 :: "bytes \<Rightarrow> u32" where "from_be_u32 bs = word_of_nat (nat_from_be bs)"

lemma length_nat_to_be [simp]: "length (nat_to_be k x) = k"
  by (induction k arbitrary: x) auto

lemma unat_byte: "unat (word_of_nat (x mod 256) :: u8) = x mod 256"
  by (simp add: unat_of_nat)

lemma nat_from_to_be: "nat_from_be (nat_to_be k x) = x mod 256 ^ k"
proof (induction k arbitrary: x)
  case 0
  then show ?case by (simp add: nat_from_be_def)
next
  case (Suc k)
  have "nat_from_be (nat_to_be (Suc k) x) = (x div 256) mod 256 ^ k * 256 + x mod 256"
    using Suc.IH [of "x div 256"] by (simp add: nat_from_be_def unat_byte)
  also have "\<dots> = x mod 256 ^ Suc k"
    by (simp add: mod_mult2_eq [of x 256 "256 ^ k"])
  finally show ?case .
qed

lemma length_to_be [simp]: "length (to_be_u64 x) = 8" "length (to_be_u32 y) = 4"
  by (simp_all add: to_be_u64_def to_be_u32_def)

lemma from_to_be_u64 [simp]: "from_be_u64 (to_be_u64 x) = x"
  using unat_bound [of x]
  by (simp add: from_be_u64_def to_be_u64_def nat_from_to_be)

lemma from_to_be_u32 [simp]: "from_be_u32 (to_be_u32 x) = x"
  using unat_bound [of x]
  by (simp add: from_be_u32_def to_be_u32_def nat_from_to_be)

section \<open>HashMap as an association list\<close>

text \<open>
  A \<open>HashMap\<close> is an association list with distinct keys, in an order the program must
  not depend on: \<open>insert\<close> replaces the entry of its key or adds one.
\<close>

type_synonym ('k, 'v) hashmap = "('k \<times> 'v) list"

definition hm_insert :: "'k \<Rightarrow> 'v \<Rightarrow> ('k, 'v) hashmap \<Rightarrow> ('k, 'v) hashmap" where
  "hm_insert k v m = AList.update k v m"

definition hm_ok :: "('k, 'v) hashmap \<Rightarrow> bool" where
  "hm_ok m = distinct (map fst m)"

lemma map_of_hm_insert [simp]: "map_of (hm_insert k v m) = (map_of m)(k \<mapsto> v)"
  by (simp add: hm_insert_def update_conv')

lemma hm_ok_insert [simp]: "hm_ok m \<Longrightarrow> hm_ok (hm_insert k v m)"
  by (simp add: hm_ok_def hm_insert_def distinct_update)

lemma hm_ok_Nil [simp]: "hm_ok []"
  by (simp add: hm_ok_def)

lemma hm_keys_insert [simp]: "fst ` set (hm_insert k v m) = insert k (fst ` set m)"
  by (simp add: hm_insert_def dom_update)

section \<open>Codecs\<close>

text \<open>
  What a sender and a receiver of bytes agree on: \<open>codec\<close> for a whole message,
  \<open>stream_codec\<close> for messages read one after another from a stream. \<open>fits\<close> says which
  values the format carries.
\<close>

locale codec =
  fixes enc :: "'a \<Rightarrow> bytes" and dec :: "bytes \<Rightarrow> 'a option" and fits :: "'a \<Rightarrow> bool"
  assumes dec_enc: "fits a \<Longrightarrow> dec (enc a) = Some a"
begin

lemma enc_inject: "fits a \<Longrightarrow> fits b \<Longrightarrow> enc a = enc b \<longleftrightarrow> a = b"
  using dec_enc by (metis option.inject)

end

fun read_all :: "(bytes \<Rightarrow> ('a \<times> bytes) option) \<Rightarrow> nat \<Rightarrow> bytes \<Rightarrow> 'a list \<times> bytes" where
  "read_all get 0 bs = ([], bs)"
| "read_all get (Suc k) bs =
     (case get bs of None \<Rightarrow> ([], bs)
      | Some (a, rest) \<Rightarrow> (let (as, left) = read_all get k rest in (a # as, left)))"

locale stream_codec =
  fixes put :: "'a \<Rightarrow> bytes" and get :: "bytes \<Rightarrow> ('a \<times> bytes) option" and fits :: "'a \<Rightarrow> bool"
  assumes get_put: "fits a \<Longrightarrow> get (put a @ rest) = Some (a, rest)"
begin

lemma read_all_concat:
  "list_all fits as \<Longrightarrow>
     read_all get (length as) (concat (map put as) @ rest) = (as, rest)"
  by (induction as) (simp_all add: get_put)

end

sublocale stream_codec \<subseteq> whole: codec put "\<lambda>bs. map_option fst (get bs)" fits
  by unfold_locales (use get_put [of _ "[]"] in simp)

end
