(* ===== verification/Addresses.thy ===== *)
theory Addresses
  imports Prelude
begin

text \<open>
  The string handling the configuration goes through: the \<open>str\<close> methods the code uses,
  decimal numbers, \<open>parse_peers\<close> of \<open>src/rpc.rs\<close>, \<open>split_host_port\<close> and \<open>parent_dir\<close>
  of \<open>src/apply.rs\<close>. A \<^typ>\<open>string\<close> is a list of code points below 256.
\<close>

section \<open>The str methods\<close>

text \<open>\<open>char::is_whitespace\<close> on those code points.\<close>

definition is_whitespace :: "char \<Rightarrow> bool" where
  "is_whitespace c = (let k = (of_char c :: nat) in (9 \<le> k \<and> k \<le> 13) \<or> k = 32 \<or> k = 133 \<or> k = 160)"

definition trim :: "string \<Rightarrow> string" where
  "trim s = rev (dropWhile is_whitespace (rev (dropWhile is_whitespace s)))"

fun split_on :: "char \<Rightarrow> string \<Rightarrow> string list" where
  "split_on c [] = [[]]"
| "split_on c (x # xs) =
     (if x = c then [] # split_on c xs
      else (case split_on c xs of [] \<Rightarrow> [[x]] | y # ys \<Rightarrow> (x # y) # ys))"

definition split_once :: "char \<Rightarrow> string \<Rightarrow> (string \<times> string) option" where
  "split_once c s =
     (if c \<in> set s then Some (takeWhile (\<lambda>x. x \<noteq> c) s, tl (dropWhile (\<lambda>x. x \<noteq> c) s)) else None)"

definition rsplit_once :: "char \<Rightarrow> string \<Rightarrow> (string \<times> string) option" where
  "rsplit_once c s = map_option (\<lambda>(a, b). (rev b, rev a)) (split_once c (rev s))"

fun join :: "string \<Rightarrow> string list \<Rightarrow> string" where
  "join sep [] = []"
| "join sep [x] = x"
| "join sep (x # y # ys) = x @ sep @ join sep (y # ys)"

lemma while_to_separator:
  "c \<notin> set a \<Longrightarrow> takeWhile (\<lambda>x. x \<noteq> c) (a @ c # b) = a"
  "c \<notin> set a \<Longrightarrow> dropWhile (\<lambda>x. x \<noteq> c) (a @ c # b) = c # b"
  by (induction a) auto

lemma split_once_append [simp]: "c \<notin> set a \<Longrightarrow> split_once c (a @ c # b) = Some (a, b)"
  by (simp add: split_once_def while_to_separator)

lemma split_once_None [simp]: "c \<notin> set s \<Longrightarrow> split_once c s = None"
  by (simp add: split_once_def)

lemma rsplit_once_append [simp]: "c \<notin> set b \<Longrightarrow> rsplit_once c (a @ c # b) = Some (a, b)"
  by (simp add: rsplit_once_def)

lemma rsplit_once_None [simp]: "c \<notin> set s \<Longrightarrow> rsplit_once c s = None"
  by (simp add: rsplit_once_def)

lemma split_on_nonempty [simp]: "split_on c s \<noteq> []"
  by (cases s) (auto split: list.split)

lemma split_on_append: "split_on c (a @ c # b) = split_on c a @ split_on c b"
  by (induction a) (auto split: list.split)

lemma split_on_id: "c \<notin> set a \<Longrightarrow> split_on c a = [a]"
  by (induction a) auto

lemma split_on_join:
  "xs \<noteq> [] \<Longrightarrow> list_all (\<lambda>x. c \<notin> set x) xs \<Longrightarrow> split_on c (join [c] xs) = xs"
  by (induction "[c]" xs rule: join.induct) (auto simp: split_on_append split_on_id)

section \<open>Decimal numbers\<close>

definition digit_char :: "nat \<Rightarrow> char" where
  "digit_char d = char_of (48 + d)"

definition digit_value :: "char \<Rightarrow> nat option" where
  "digit_value c = (let k = of_char c in if 48 \<le> k \<and> k \<le> 57 then Some (k - 48) else None)"

fun show_nat :: "nat \<Rightarrow> string" where
  "show_nat m = (if m < 10 then [digit_char m] else show_nat (m div 10) @ [digit_char (m mod 10)])"

declare show_nat.simps [simp del]

definition show_u64 :: "u64 \<Rightarrow> string" where
  "show_u64 x = show_nat (unat x)"

definition show_int :: "int \<Rightarrow> string" where
  "show_int x = (if x < 0 then CHR ''-'' # show_nat (nat (- x)) else show_nat (nat x))"

definition show_bool :: "bool \<Rightarrow> string" where
  "show_bool b = (if b then ''true'' else ''false'')"

text \<open>Digits are accumulated with \<open>checked_mul\<close> and \<open>checked_add\<close> below a limit.\<close>

fun parse_digits :: "nat \<Rightarrow> nat \<Rightarrow> string \<Rightarrow> nat option" where
  "parse_digits lim acc [] = Some acc"
| "parse_digits lim acc (c # cs) =
     (case digit_value c of None \<Rightarrow> None
      | Some d \<Rightarrow> if acc * 10 + d < lim then parse_digits lim (acc * 10 + d) cs else None)"

text \<open>\<open>str::parse::<u64>\<close>: an optional plus sign and at least one digit.\<close>

definition parse_u64 :: "string \<Rightarrow> u64 option" where
  "parse_u64 s =
     (let ds = (case s of [] \<Rightarrow> [] | c # cs \<Rightarrow> if c = CHR ''+'' then cs else s)
      in if ds = [] then None else map_option word_of_nat (parse_digits (2 ^ 64) 0 ds))"

lemma digit_value_char [simp]: "d < 10 \<Longrightarrow> digit_value (digit_char d) = Some d"
  by (simp add: digit_value_def digit_char_def Let_def)

lemma show_nat_nonempty [simp]: "show_nat m \<noteq> []"
  by (subst show_nat.simps) simp

lemma parse_digits_append:
  "parse_digits lim acc (xs @ ys) =
     (case parse_digits lim acc xs of None \<Rightarrow> None | Some a \<Rightarrow> parse_digits lim a ys)"
  by (induction xs arbitrary: acc) (auto split: option.split)

lemma parse_show_nat: "m < lim \<Longrightarrow> parse_digits lim 0 (show_nat m) = Some m"
proof (induction m rule: show_nat.induct)
  case (1 m)
  show ?case
  proof (cases "m < 10")
    case True
    then show ?thesis using "1.prems" by (simp add: show_nat.simps [of m])
  next
    case False
    have "m div 10 < lim" using "1.prems" by (meson div_le_dividend le_less_trans)
    then have "parse_digits lim 0 (show_nat (m div 10)) = Some (m div 10)"
      using "1.IH" [OF False] by simp
    then show ?thesis
      using False "1.prems" by (simp add: show_nat.simps [of m] parse_digits_append)
  qed
qed

lemma digit_char_inj: "d < 10 \<Longrightarrow> digit_char d = c \<longleftrightarrow> digit_value c = Some d"
  by (auto simp: digit_value_def digit_char_def Let_def split: if_splits)

lemma set_show_nat: "set (show_nat m) \<subseteq> digit_char ` {..<10}"
proof (induction m rule: show_nat.induct)
  case (1 m)
  then show ?case by (cases "m < 10") (auto simp: show_nat.simps [of m])
qed

lemma show_nat_digits: "c \<in> set (show_nat m) \<Longrightarrow> digit_value c \<noteq> None"
  using set_show_nat [of m] by auto

lemma show_nat_ends: "digit_value (hd (show_nat m)) \<noteq> None" "digit_value (last (show_nat m)) \<noteq> None"
  by (rule show_nat_digits [of _ m], simp)+

lemma digit_value_special [simp]:
  "digit_value CHR ''+'' = None" "digit_value CHR '','' = None" "digit_value CHR ''@'' = None"
  by (simp_all add: digit_value_def)

lemma digit_not_whitespace: "digit_value c \<noteq> None \<Longrightarrow> \<not> is_whitespace c"
  by (auto simp: digit_value_def is_whitespace_def Let_def split: if_splits)

lemma parse_show_u64 [simp]: "parse_u64 (show_u64 x) = Some x"
proof -
  obtain d ds where eq: "show_nat (unat x) = d # ds"
    using show_nat_nonempty by (cases "show_nat (unat x)") auto
  then have "d \<noteq> CHR ''+''" using show_nat_ends(1) [of "unat x"] by auto
  moreover have "parse_digits (2 ^ 64) 0 (d # ds) = Some (unat x)"
    using unat_bound [of x] unfolding eq [symmetric] by (intro parse_show_nat) simp
  ultimately show ?thesis
    by (simp add: parse_u64_def show_u64_def eq del: parse_digits.simps)
qed

section \<open>Peers\<close>

record peer =
  p_id :: u64
  p_addr :: string

definition parse_peer :: "string \<Rightarrow> peer option" where
  "parse_peer raw =
     (let entry = trim raw
      in if entry = [] then None
         else case split_once CHR ''@'' entry of None \<Rightarrow> None
              | Some (id_part, addr_part) \<Rightarrow>
                  (case parse_u64 (trim id_part) of None \<Rightarrow> None
                   | Some i \<Rightarrow> Some \<lparr>p_id = i, p_addr = trim addr_part\<rparr>))"

definition parse_peers :: "string \<Rightarrow> peer list" where
  "parse_peers spec = List.map_filter parse_peer (split_on CHR '','' spec)"

section \<open>Hosts, ports and directories\<close>

definition split_host_port :: "string \<Rightarrow> string \<times> string" where
  "split_host_port addr =
     (case rsplit_once CHR '':'' addr of Some (host, port) \<Rightarrow> (host, port)
      | None \<Rightarrow> (addr, ''5432''))"

definition parent_dir :: "string \<Rightarrow> string" where
  "parent_dir path = (case rsplit_once CHR ''/'' path of Some (dir, _) \<Rightarrow> dir | None \<Rightarrow> ''.'')"

section \<open>Rendering a peer list\<close>

definition render_peer :: "peer \<Rightarrow> string" where
  "render_peer p = show_u64 (p_id p) @ ''@'' @ p_addr p"

definition render_peers :: "peer list \<Rightarrow> string" where
  "render_peers ps = join '','' (map render_peer ps)"

text \<open>An address the list format can carry: no comma, no blank at either end.\<close>

definition plain_addr :: "string \<Rightarrow> bool" where
  "plain_addr a \<longleftrightarrow> a \<noteq> [] \<and> CHR '','' \<notin> set a \<and> trim a = a"

lemma dropWhile_hd: "\<not> P (hd s) \<Longrightarrow> dropWhile P s = s"
  if "s \<noteq> []" using that by (cases s) auto

lemma trim_id: "s \<noteq> [] \<Longrightarrow> \<not> is_whitespace (hd s) \<Longrightarrow> \<not> is_whitespace (last s) \<Longrightarrow> trim s = s"
  by (simp add: trim_def dropWhile_hd hd_rev)

lemma trim_last: "trim s = s \<Longrightarrow> s \<noteq> [] \<Longrightarrow> \<not> is_whitespace (last s)"
  by (metis dropWhile_eq_Nil_conv hd_dropWhile hd_rev rev_is_Nil_conv rev_rev_ident trim_def
      list.set_sel(1))

lemma trim_show_u64 [simp]: "trim (show_u64 x) = show_u64 x"
  by (rule trim_id) (auto simp: show_u64_def intro!: digit_not_whitespace show_nat_ends)

lemma no_special_show_u64:
  "CHR ''@'' \<notin> set (show_u64 x)" "CHR '','' \<notin> set (show_u64 x)"
  using show_nat_digits [of "CHR ''@''" "unat x"] show_nat_digits [of "CHR '',''" "unat x"]
  by (auto simp: show_u64_def)

lemma parse_render_peer:
  assumes "plain_addr (p_addr p)"
  shows "parse_peer (render_peer p) = Some p"
proof -
  have ne: "p_addr p \<noteq> []" "trim (p_addr p) = p_addr p"
    using assms by (auto simp: plain_addr_def)
  have first: "\<not> is_whitespace (hd (render_peer p))"
    by (auto simp: render_peer_def show_u64_def intro!: digit_not_whitespace show_nat_ends)
  have "trim (render_peer p) = render_peer p"
    using trim_last [OF ne(2,1)] first ne by (intro trim_id) (auto simp: render_peer_def)
  then show ?thesis
    using ne no_special_show_u64(1) by (simp add: parse_peer_def render_peer_def)
qed

lemma render_peer_no_comma: "plain_addr (p_addr p) \<Longrightarrow> CHR '','' \<notin> set (render_peer p)"
  using no_special_show_u64 by (auto simp: render_peer_def plain_addr_def)

section \<open>Properties\<close>

text \<open>
  C22: Parsing a rendered peer list gives the list back, in order and with duplicates: every
  \<open>u64\<close> id survives, and so does every address without a comma or outer blanks (an
  address may contain colons and further \<open>@\<close> signs).
\<close>

theorem parse_peers_round_trip:
  assumes "list_all (\<lambda>p. plain_addr (p_addr p)) ps"
  shows "parse_peers (render_peers ps) = ps"
proof (cases "ps = []")
  case True
  then show ?thesis
    by (simp add: parse_peers_def render_peers_def parse_peer_def trim_def map_filter_def)
next
  case False
  have "split_on CHR '','' (render_peers ps) = map render_peer ps"
    unfolding render_peers_def using False assms
    by (intro split_on_join) (auto simp: list_all_iff render_peer_no_comma)
  moreover have "List.map_filter parse_peer (map render_peer ps) = ps"
    using assms by (induction ps) (auto simp: map_filter_def parse_render_peer)
  ultimately show ?thesis by (simp add: parse_peers_def)
qed

theorem parse_peers_round_trip_witness:
  "parse_peers (render_peers [\<lparr>p_id = 1, p_addr = ''10.0.0.1:7400''\<rparr>,
     \<lparr>p_id = 1, p_addr = ''h@x:1''\<rparr>]) =
   [\<lparr>p_id = 1, p_addr = ''10.0.0.1:7400''\<rparr>, \<lparr>p_id = 1, p_addr = ''h@x:1''\<rparr>]"
  by (rule parse_peers_round_trip) (simp add: plain_addr_def trim_def is_whitespace_def)

text \<open>
  A peer list is parsed entry by entry: the text before and after any comma is parsed on
  its own, so a malformed entry is skipped and changes no other.
\<close>

lemma parse_peers_entrywise:
  "parse_peers (a @ CHR '','' # b) = parse_peers a @ parse_peers b"
  by (simp add: parse_peers_def split_on_append map_filter_def)

text \<open>
  An address is split at its last colon, so the port is what follows it; an address without
  a colon gets PostgreSQL's default port. A path's parent is what precedes its last slash, and
  the current directory for a bare program name.
\<close>

lemma split_host_port_and_parent_dir:
  "(CHR '':'' \<notin> set port \<longrightarrow> split_host_port (host @ CHR '':'' # port) = (host, port)) \<and>
   (CHR '':'' \<notin> set host \<longrightarrow> split_host_port host = (host, ''5432'')) \<and>
   (CHR ''/'' \<notin> set name \<longrightarrow> parent_dir (dir @ CHR ''/'' # name) = dir \<and>
      parent_dir name = ''.'')"
  by (simp add: split_host_port_def parent_dir_def)

lemma split_host_port_and_parent_dir_witness:
  "split_host_port ''[::1]:5433'' = (''[::1]'', ''5433'') \<and>
   split_host_port ''db'' = (''db'', ''5432'') \<and> parent_dir ''/usr/bin/psql'' = ''/usr/bin'' \<and>
   parent_dir ''psql'' = ''.''"
  using split_host_port_and_parent_dir [of "''5433''" "''[::1]''" "''psql''" "''/usr/bin''"]
    split_host_port_and_parent_dir [of "''x''" "''db''"] by simp

end
