(* ===== verification/Settings.thy ===== *)
theory Settings
  imports Addresses
begin

text \<open>
  \<open>src/config.rs\<close>: the settings the extension registers with PostgreSQL, with their ranges and
  defaults, and the functions that read them. String settings are the text after
  \<open>to_string_lossy\<close>. Three readers compute their value once and keep it in a \<open>OnceLock\<close>.
\<close>

section \<open>The registered settings\<close>

text \<open>\<open>IntGuc\<close> has the default, the least and the greatest value.\<close>

datatype guc_kind = BoolGuc bool | IntGuc int int int | StrGuc

definition i32_max :: int where "i32_max = 2147483647"

definition guc_table :: "(string \<times> guc_kind) list" where
  "guc_table =
    [(''pg_replica.synchronous'', BoolGuc False),
     (''pg_replica.node_id'', IntGuc 0 0 i32_max),
     (''pg_replica.compact_threshold'', IntGuc 64 1 i32_max),
     (''pg_replica.raft_port'', IntGuc 7400 1 65535),
     (''pg_replica.peers'', StrGuc),
     (''pg_replica.pg_addrs'', StrGuc),
     (''pg_replica.psql'', StrGuc),
     (''pg_replica.rejoin_script'', StrGuc),
     (''pg_replica.watchdog_script'', StrGuc),
     (''pg_replica.passfile'', StrGuc),
     (''pg_replica.raft_dir'', StrGuc),
     (''pg_replica.apply_user'', StrGuc),
     (''pg_replica.apply_db'', StrGuc)]"

record guc_values =
  v_synchronous :: bool
  v_node_id :: int
  v_raft_port :: int
  v_compact_threshold :: int
  v_peers :: "string option"
  v_pg_addrs :: "string option"
  v_psql :: "string option"
  v_rejoin_script :: "string option"
  v_watchdog_script :: "string option"
  v_passfile :: "string option"
  v_raft_dir :: "string option"
  v_apply_user :: "string option"
  v_apply_db :: "string option"

text \<open>The values before the configuration file is read.\<close>

definition default_values :: guc_values where
  "default_values =
     \<lparr>v_synchronous = False, v_node_id = 0, v_raft_port = 7400, v_compact_threshold = 64,
      v_peers = None, v_pg_addrs = None, v_psql = None, v_rejoin_script = None,
      v_watchdog_script = None, v_passfile = None, v_raft_dir = None, v_apply_user = None,
      v_apply_db = None\<rparr>"

text \<open>PostgreSQL accepts an integer setting within its registered range only.\<close>

definition in_guc_range :: "string \<Rightarrow> int \<Rightarrow> bool" where
  "in_guc_range name x = (case map_of guc_table name of
     Some (IntGuc _ lo hi) \<Rightarrow> lo \<le> x \<and> x \<le> hi | _ \<Rightarrow> False)"

definition accepted :: "guc_values \<Rightarrow> bool" where
  "accepted v \<longleftrightarrow> in_guc_range ''pg_replica.node_id'' (v_node_id v) \<and>
     in_guc_range ''pg_replica.raft_port'' (v_raft_port v) \<and>
     in_guc_range ''pg_replica.compact_threshold'' (v_compact_threshold v)"

section \<open>Reading a setting\<close>

definition non_empty :: "string option \<Rightarrow> string option" where
  "non_empty s = (case s of None \<Rightarrow> None | Some x \<Rightarrow> if x = [] then None else Some x)"

definition or_else :: "'a option \<Rightarrow> 'a option \<Rightarrow> 'a option" where
  "or_else a b = (case a of None \<Rightarrow> b | Some x \<Rightarrow> Some x)"

definition cfg_peers :: "guc_values \<Rightarrow> string" where
  "cfg_peers v = unwrap_or [] (v_peers v)"

definition cfg_pg_addrs :: "guc_values \<Rightarrow> string" where
  "cfg_pg_addrs v = unwrap_or [] (v_pg_addrs v)"

definition cfg_psql :: "guc_values \<Rightarrow> string" where
  "cfg_psql v = unwrap_or ''psql'' (non_empty (v_psql v))"

definition cfg_rejoin_script :: "guc_values \<Rightarrow> string" where
  "cfg_rejoin_script v = unwrap_or [] (v_rejoin_script v)"

definition cfg_watchdog_script :: "guc_values \<Rightarrow> string" where
  "cfg_watchdog_script v = unwrap_or [] (v_watchdog_script v)"

definition cfg_raft_dir :: "guc_values \<Rightarrow> string" where
  "cfg_raft_dir v = unwrap_or [] (v_raft_dir v)"

record caches =
  apply_user_cache :: "string option"
  apply_db_cache :: "string option"
  passfile_cache :: "string option"

text \<open>\<open>env\<close> is the environment of the process.\<close>

definition cfg_passfile :: "guc_values \<Rightarrow> caches \<Rightarrow> string \<times> caches" where
  "cfg_passfile v c =
     (let r = (case passfile_cache c of Some x \<Rightarrow> x | None \<Rightarrow> unwrap_or [] (v_passfile v))
      in (r, c\<lparr>passfile_cache := Some r\<rparr>))"

definition cfg_apply_user ::
    "(string \<Rightarrow> string option) \<Rightarrow> guc_values \<Rightarrow> caches \<Rightarrow> string \<times> caches" where
  "cfg_apply_user env v c =
     (let r = (case apply_user_cache c of Some x \<Rightarrow> x
               | None \<Rightarrow> unwrap_or ''postgres''
                   (non_empty (or_else (non_empty (v_apply_user v)) (env ''POSTGRES_USER''))))
      in (r, c\<lparr>apply_user_cache := Some r\<rparr>))"

definition cfg_apply_db ::
    "(string \<Rightarrow> string option) \<Rightarrow> guc_values \<Rightarrow> caches \<Rightarrow> string \<times> caches" where
  "cfg_apply_db env v c =
     (let r = (case apply_db_cache c of Some x \<Rightarrow> x
               | None \<Rightarrow> unwrap_or ''postgres''
                   (non_empty (or_else (non_empty (v_apply_db v)) (env ''POSTGRES_DB''))))
      in (r, c\<lparr>apply_db_cache := Some r\<rparr>))"

definition new_caches :: caches where
  "new_caches = \<lparr>apply_user_cache = None, apply_db_cache = None, passfile_cache = None\<rparr>"

section \<open>A cached reader\<close>

text \<open>
  What the supervisor relies on: the first read fixes the value, whatever the settings and the
  environment are later. The interface is met by each of the three readers.
\<close>

locale once_reader =
  fixes get :: "'e \<Rightarrow> caches \<Rightarrow> string \<times> caches" and slot :: "caches \<Rightarrow> string option"
  assumes get_slot: "slot (snd (get e c)) = Some (fst (get e c))"
    and get_cached: "slot c = Some r \<Longrightarrow> get e c = (r, c)"
begin

lemma get_again: "get e' (snd (get e c)) = (fst (get e c), snd (get e c))"
  by (rule get_cached) (rule get_slot)

end

interpretation user: once_reader "\<lambda>(env, v). cfg_apply_user env v" apply_user_cache
  by unfold_locales (auto simp: cfg_apply_user_def Let_def split: option.split)

interpretation db: once_reader "\<lambda>(env, v). cfg_apply_db env v" apply_db_cache
  by unfold_locales (auto simp: cfg_apply_db_def Let_def split: option.split)

interpretation passfile: once_reader cfg_passfile passfile_cache
  by unfold_locales (auto simp: cfg_passfile_def Let_def split: option.split)

lemma non_empty_Some: "non_empty s = Some x \<Longrightarrow> x \<noteq> []"
  by (auto simp: non_empty_def split: option.splits if_splits)

lemma apply_user_nonempty: "fst (cfg_apply_user env v new_caches) \<noteq> []"
  by (auto simp: cfg_apply_user_def new_caches_def Let_def unwrap_or_def
      split: option.split dest: non_empty_Some)

lemma apply_db_nonempty: "fst (cfg_apply_db env v new_caches) \<noteq> []"
  by (auto simp: cfg_apply_db_def new_caches_def Let_def unwrap_or_def
      split: option.split dest: non_empty_Some)

section \<open>Casts\<close>

text \<open>\<open>as u64\<close> and \<open>as u16\<close> keep the low bits of the \<open>i32\<close>.\<close>

definition node_id_u64 :: "guc_values \<Rightarrow> u64" where
  "node_id_u64 v = word_of_int (v_node_id v)"

definition raft_port_u16 :: "guc_values \<Rightarrow> u16" where
  "raft_port_u16 v = word_of_int (v_raft_port v)"

definition compact_threshold_u64 :: "guc_values \<Rightarrow> u64" where
  "compact_threshold_u64 v = word_of_int (max (v_compact_threshold v) 1)"

lemma default_accepted: "accepted default_values"
  by code_simp

lemma accepted_ranges:
  "accepted v \<longleftrightarrow> 0 \<le> v_node_id v \<and> v_node_id v \<le> i32_max \<and> 1 \<le> v_raft_port v \<and>
     v_raft_port v \<le> 65535 \<and> 1 \<le> v_compact_threshold v \<and> v_compact_threshold v \<le> i32_max"
  by (simp add: accepted_def in_guc_range_def guc_table_def)

section \<open>Properties\<close>

text \<open>
  C33: Under settings PostgreSQL accepts, the supervisor's casts lose nothing: the node id, the
  port and the compaction threshold it uses are the configured numbers, the port is not 0, and
  the threshold is at least 1.
\<close>

theorem accepted_settings_cast_exactly:
  assumes "accepted v"
  shows "uint (node_id_u64 v) = v_node_id v \<and> (node_id_u64 v = 0 \<longleftrightarrow> v_node_id v = 0) \<and>
    uint (raft_port_u16 v) = v_raft_port v \<and> raft_port_u16 v \<noteq> 0 \<and>
    uint (compact_threshold_u64 v) = v_compact_threshold v \<and> 1 \<le> compact_threshold_u64 v"
proof -
  have node: "uint (node_id_u64 v) = v_node_id v"
    using assms by (simp add: accepted_ranges node_id_u64_def i32_max_def take_bit_int_eq_self uint_word_of_int)
  have port: "uint (raft_port_u16 v) = v_raft_port v"
    using assms by (simp add: accepted_ranges raft_port_u16_def uint_word_of_int)
  have thr: "uint (compact_threshold_u64 v) = v_compact_threshold v"
    using assms by (simp add: accepted_ranges compact_threshold_u64_def i32_max_def uint_word_of_int)
  show ?thesis
    using assms node port thr
    by (auto simp: accepted_ranges word_uint_eq_iff [of _ 0] word_le_def)
qed

theorem accepted_settings_cast_exactly_witness:
  "uint (raft_port_u16 default_values) = 7400 \<and> uint (compact_threshold_u64 default_values) = 64"
  using accepted_settings_cast_exactly [OF default_accepted] by (simp add: default_values_def)

end
