(* ===== verification/Psql.thy ===== *)
theory Psql
  imports Addresses
begin

text \<open>
  \<open>src/apply.rs\<close>: the commands the supervisor runs, waiting for one with a deadline, and what
  is read from its output. The process itself is a parameter: the outcomes of polling it, the
  clock, and its output (text after \<open>from_utf8_lossy\<close>).
\<close>

section \<open>Waiting for a child\<close>

datatype poll = Exited | Running | PollError

record proc_output =
  o_success :: bool
  o_stdout :: string
  o_stderr :: string

text \<open>
  \<open>c_poll k\<close> is the answer to the \<open>k\<close>-th \<open>try_wait\<close>, \<open>c_clock k\<close> the time read after it.
\<close>

record child =
  c_spawned :: bool
  c_start :: instant
  c_poll :: "nat \<Rightarrow> poll"
  c_clock :: "nat \<Rightarrow> instant"
  c_output :: "proc_output option"

definition sql_timeout :: duration where "sql_timeout = from_millis 10000"
definition probe_timeout :: duration where "probe_timeout = from_millis 1200"
definition poll_interval :: duration where "poll_interval = from_millis 20"

text \<open>
  The loop: whether the child exited by itself, and the number of the last poll. Otherwise it
  is killed and reaped.
\<close>

partial_function (option) wait_child ::
    "(nat \<Rightarrow> poll) \<Rightarrow> (nat \<Rightarrow> instant) \<Rightarrow> instant \<Rightarrow> nat \<Rightarrow> (bool \<times> nat) option" where
  "wait_child pl clock deadline k =
     (case pl k of
        Exited \<Rightarrow> Some (True, k)
      | PollError \<Rightarrow> Some (False, k)
      | Running \<Rightarrow>
          if clock k \<ge> deadline then Some (False, k) else wait_child pl clock deadline (Suc k))"

text \<open>The outer option is whether it returns at all.\<close>

definition output_with_timeout :: "child \<Rightarrow> duration \<Rightarrow> proc_output option option" where
  "output_with_timeout c timeout =
     (if \<not> c_spawned c then Some None
      else map_option (\<lambda>(exited, _). if exited then c_output c else None)
             (wait_child (c_poll c) (c_clock c) (c_start c + timeout) 0))"

lemma wait_child_returns:
  assumes "\<forall>k. start + k * step \<le> clock k" "start + bound * step \<ge> deadline"
    and "k \<le> bound" "\<forall>j < k. pl j = Running \<and> clock j < deadline"
  shows "\<exists>r j. wait_child pl clock deadline k = Some (r, j) \<and> j \<le> bound \<and> (r \<longleftrightarrow> pl j = Exited) \<and>
    (\<forall>i < j. pl i = Running \<and> clock i < deadline) \<and> (pl j \<noteq> Running \<or> deadline \<le> clock j)"
  using assms(3,4)
proof (induction "bound - k" arbitrary: k)
  case 0
  then have k: "k = bound" by simp
  then have "clock k \<ge> deadline" using assms(1,2) by (meson order_trans)
  then show ?case
    using 0 k by (subst wait_child.simps) (auto split: poll.split)
next
  case (Suc m)
  show ?case
  proof (cases "pl k = Running \<and> clock k < deadline")
    case True
    then have "\<forall>j < Suc k. pl j = Running \<and> clock j < deadline"
      using Suc.prems by (auto simp: less_Suc_eq)
    moreover have "m = bound - Suc k" "Suc k \<le> bound" using Suc.hyps(2) by auto
    ultimately show ?thesis
      using Suc.hyps(1) [of "Suc k"] True by (subst wait_child.simps) (auto simp: not_le)
  next
    case False
    then show ?thesis
      using Suc.prems by (subst wait_child.simps) (auto split: poll.split)
  qed
qed

section \<open>Reading numbers\<close>

text \<open>\<open>str::parse::<i64>\<close>: an optional sign and digits, within range.\<close>

definition parse_i64 :: "string \<Rightarrow> int option" where
  "parse_i64 s =
     (case s of
        [] \<Rightarrow> None
      | c # cs \<Rightarrow>
          if c = CHR ''-'' then
            (if cs = [] then None else map_option (\<lambda>m. - int m) (parse_digits (2 ^ 63 + 1) 0 cs))
          else
            (let ds = (if c = CHR ''+'' then cs else s)
             in if ds = [] then None else map_option int (parse_digits (2 ^ 63) 0 ds)))"

text \<open>\<open>value.max(0) as u64\<close>.\<close>

definition clamp_u64 :: "int \<Rightarrow> u64" where
  "clamp_u64 x = word_of_int (max x 0)"

definition peer_wal_lsn :: "proc_output option \<Rightarrow> u64 option" where
  "peer_wal_lsn out =
     (case out of None \<Rightarrow> None
      | Some o' \<Rightarrow> if o_success o' then map_option clamp_u64 (parse_i64 (trim (o_stdout o'))) else None)"

section \<open>Commands\<close>

record command =
  prog :: string
  args :: "string list"
  envs :: "(string \<times> string) list"

text \<open>The environment of a child: its own variables over those it inherits.\<close>

definition child_env :: "(string \<Rightarrow> string option) \<Rightarrow> command \<Rightarrow> string \<Rightarrow> string option" where
  "child_env env cmd name = (case map_of (envs cmd) name of Some x \<Rightarrow> Some x | None \<Rightarrow> env name)"

text \<open>A text in SQL quotes; the code does not escape what it puts between them.\<close>

definition quoted :: "string \<Rightarrow> string" where
  "quoted s = [CHR 0x27] @ s @ [CHR 0x27]"

definition lsn_query :: "bool \<Rightarrow> string" where
  "lsn_query in_recovery =
     (if in_recovery
      then ''SELECT pg_wal_lsn_diff(COALESCE(pg_last_wal_receive_lsn(), '' @ quoted ''0/0'' @ ''), ''
             @ quoted ''0/0'' @ '')::bigint''
      else ''SELECT pg_wal_lsn_diff(pg_current_wal_lsn(), '' @ quoted ''0/0'' @ '')::bigint'')"

definition peer_lsn_command :: "string \<Rightarrow> string \<Rightarrow> string \<Rightarrow> command" where
  "peer_lsn_command psql host port =
     \<lparr>prog = psql,
      args = [''-h'', host, ''-p'', port, ''-U'', ''replicator'', ''-d'', ''postgres'', ''-w'', ''-tAc'',
              lsn_query True],
      envs = [(''PGCONNECT_TIMEOUT'', ''1'')]\<rparr>"

text \<open>What \<open>run_sql_with_timeout\<close> takes from the configuration.\<close>

record sql_target =
  t_psql :: string
  t_host :: string
  t_port :: string
  t_user :: string
  t_db :: string
  t_passfile :: string

definition sql_command :: "sql_target \<Rightarrow> string \<Rightarrow> command" where
  "sql_command t sql =
     \<lparr>prog = t_psql t,
      args = [''-h'', t_host t, ''-p'', t_port t, ''-U'', t_user t, ''-d'', t_db t, ''-w'',
              ''-v'', ''ON_ERROR_STOP=1'', ''-tAc'', sql],
      envs = [(''PGCONNECT_TIMEOUT'', ''2''), (''PGOPTIONS'', ''-c statement_timeout=5000'')]
        @ (if t_passfile t \<noteq> [] then [(''PGPASSFILE'', t_passfile t)] else [])\<rparr>"

definition sql_result :: "proc_output option \<Rightarrow> (string, string) result" where
  "sql_result out =
     (case out of
        None \<Rightarrow> Err ''psql failed to spawn or timed out''
      | Some o' \<Rightarrow> if o_success o' then Ok (trim (o_stdout o')) else Err (trim (o_stderr o')))"

definition wal_lsn :: "proc_output option \<Rightarrow> u64" where
  "wal_lsn out = unwrap_or 0 (map_option clamp_u64
     (case ok (sql_result out) of None \<Rightarrow> None | Some v \<Rightarrow> parse_i64 (trim v)))"

text \<open>The detached scripts.\<close>

definition rejoin_command ::
    "string \<Rightarrow> string \<Rightarrow> string \<Rightarrow> string \<Rightarrow> string \<Rightarrow> u64 \<Rightarrow> string \<Rightarrow> string \<Rightarrow> command" where
  "rejoin_command script pgbin datadir leader_host leader_port node_id passfile standby_conninfo =
     \<lparr>prog = ''setsid'',
      args = [''bash'', script, pgbin, datadir, leader_host, leader_port, show_u64 node_id, passfile,
              standby_conninfo],
      envs = []\<rparr>"

definition watchdog_command ::
    "string \<Rightarrow> string \<Rightarrow> string \<Rightarrow> string \<Rightarrow> string \<Rightarrow> u64 \<Rightarrow> string \<Rightarrow> command" where
  "watchdog_command script psql host port heartbeat node_id user =
     \<lparr>prog = ''setsid'',
      args = [''bash'', script, psql, host, port, heartbeat, show_u64 node_id, user],
      envs = []\<rparr>"

section \<open>Lemmas\<close>

lemma digit_value_minus [simp]: "digit_value CHR ''-'' = None"
  by code_simp

lemma parse_show_i64: "m < 2 ^ 63 \<Longrightarrow> parse_i64 (show_nat m) = Some (int m)"
proof -
  assume m: "m < 2 ^ 63"
  obtain d ds where eq: "show_nat m = d # ds"
    using show_nat_nonempty by (cases "show_nat m") auto
  then have "d \<noteq> CHR ''+''" "d \<noteq> CHR ''-''" using show_nat_ends(1) [of m] by auto
  moreover have "parse_digits (2 ^ 63) 0 (d # ds) = Some m"
    unfolding eq [symmetric] by (rule parse_show_nat) (rule m)
  ultimately show ?thesis unfolding eq by (simp add: parse_i64_def)
qed

lemma parse_minus_i64: "m \<le> 2 ^ 63 \<Longrightarrow> parse_i64 (CHR ''-'' # show_nat m) = Some (- int m)"
  using parse_show_nat [of m "2 ^ 63 + 1"] by (simp add: parse_i64_def)

lemma trim_output: "trim (show_nat m @ [CHR 0x0A]) = show_nat m" "trim (CHR ''-'' # show_nat m @ [CHR 0x0A]) = CHR ''-'' # show_nat m"
proof -
  have ws: "is_whitespace CHR 0x0A" "\<not> is_whitespace CHR ''-''" by code_simp+
  have last: "\<not> is_whitespace (last (show_nat m))" and hd: "\<not> is_whitespace (hd (show_nat m))"
    using show_nat_ends [of m] digit_not_whitespace by blast+
  have drop: "dropWhile is_whitespace (show_nat m @ ys) = show_nat m @ ys" for ys
    using dropWhile_hd [of "show_nat m @ ys"] hd by simp
  have rdrop: "dropWhile is_whitespace (rev (show_nat m) @ ys) = rev (show_nat m) @ ys" for ys
    using dropWhile_hd [of "rev (show_nat m) @ ys" is_whitespace] last by (simp add: hd_rev)
  show "trim (show_nat m @ [CHR 0x0A]) = show_nat m"
    using rdrop [of "[]"] by (simp add: trim_def drop ws)
  show "trim (CHR ''-'' # show_nat m @ [CHR 0x0A]) = CHR ''-'' # show_nat m"
    by (simp add: trim_def ws rdrop)
qed

lemma trim_show: "trim (show_nat m) = show_nat m" "trim (CHR ''-'' # show_nat m) = CHR ''-'' # show_nat m"
proof -
  have "\<not> is_whitespace CHR ''-''" by code_simp
  then show "trim (show_nat m) = show_nat m" "trim (CHR ''-'' # show_nat m) = CHR ''-'' # show_nat m"
    using show_nat_ends [of m] digit_not_whitespace by (auto intro!: trim_id)
qed

lemma clamp_simps: "m < 2 ^ 63 \<Longrightarrow> clamp_u64 (int m) = word_of_nat m" "clamp_u64 (- int m) = 0"
  by (simp_all add: clamp_u64_def max_def)

section \<open>Properties\<close>

text \<open>
  C34: Waiting for a child ends, with the right answer: as every sleep lasts at least 20 ms, the
  loop stops at a poll \<open>j\<close> that is at most one for each 20 ms of the timeout and one more, namely
  the first one that does not find the child running or that ends at or after the deadline; and
  \<open>output_with_timeout\<close> returns the child's output if that poll found it exited, and nothing
  otherwise. A child that could not be started gives nothing at once.
\<close>

theorem child_is_awaited_for_a_bounded_time:
  assumes "\<forall>k. c_start c + k * poll_interval \<le> c_clock c k"
  shows "\<exists>j \<le> timeout div poll_interval + 1.
    (\<forall>i < j. c_poll c i = Running \<and> c_clock c i < c_start c + timeout) \<and>
    (c_poll c j \<noteq> Running \<or> c_start c + timeout \<le> c_clock c j) \<and>
    wait_child (c_poll c) (c_clock c) (c_start c + timeout) 0 = Some (c_poll c j = Exited, j) \<and>
    output_with_timeout c timeout = Some (if c_spawned c \<and> c_poll c j = Exited then c_output c else None)"
proof -
  have pos: "0 < poll_interval" by (simp add: poll_interval_def from_millis_def)
  have "timeout \<le> (timeout div poll_interval + 1) * poll_interval"
    using dividend_less_div_times [OF pos, of timeout] by (simp add: add.commute)
  then obtain r j where w: "wait_child (c_poll c) (c_clock c) (c_start c + timeout) 0 = Some (r, j)"
    "j \<le> timeout div poll_interval + 1" "r \<longleftrightarrow> c_poll c j = Exited"
    "\<forall>i < j. c_poll c i = Running \<and> c_clock c i < c_start c + timeout"
    "c_poll c j \<noteq> Running \<or> c_start c + timeout \<le> c_clock c j"
    using wait_child_returns [OF assms, of "c_start c + timeout" "timeout div poll_interval + 1" 0 "c_poll c"]
    by auto
  then show ?thesis
    by (intro exI [of _ j]) (auto simp: output_with_timeout_def)
qed

text \<open>A child that exits while the second poll is made.\<close>

definition quick_child :: child where
  "quick_child = \<lparr>c_spawned = True, c_start = 5, c_poll = \<lambda>k. if k = 0 then Running else Exited,
     c_clock = \<lambda>k. 5 + k * poll_interval,
     c_output = Some \<lparr>o_success = True, o_stdout = ''on'', o_stderr = []\<rparr>\<rparr>"

theorem child_is_awaited_for_a_bounded_time_witness:
  "output_with_timeout quick_child probe_timeout = Some (c_output quick_child)"
proof -
  have "c_start quick_child + probe_timeout > c_clock quick_child 0"
    by (simp add: quick_child_def probe_timeout_def from_millis_def)
  then obtain j where "c_poll quick_child j \<noteq> Running \<or> c_start quick_child + probe_timeout \<le> c_clock quick_child j"
    "output_with_timeout quick_child probe_timeout =
       Some (if c_spawned quick_child \<and> c_poll quick_child j = Exited then c_output quick_child else None)"
    using child_is_awaited_for_a_bounded_time [of quick_child probe_timeout]
    by (auto simp: quick_child_def)
  then show ?thesis
    using \<open>c_start quick_child + probe_timeout > c_clock quick_child 0\<close>
    by (cases "j = 0") (simp_all add: quick_child_def)
qed

text \<open>
  A WAL position printed by psql is read back exactly when it fits an \<open>i64\<close>, a negative one
  counts as 0, and a failed or timed out query as 0 for the own server and as unknown for a peer.
\<close>

lemma wal_positions_are_read_back:
  assumes "m < 2 ^ 63"
  shows "peer_wal_lsn (Some \<lparr>o_success = True, o_stdout = show_nat m @ [CHR 0x0A], o_stderr = e\<rparr>) =
      Some (word_of_nat m) \<and>
    wal_lsn (Some \<lparr>o_success = True, o_stdout = show_nat m @ [CHR 0x0A], o_stderr = e\<rparr>) = word_of_nat m \<and>
    wal_lsn (Some \<lparr>o_success = True, o_stdout = CHR ''-'' # show_nat m @ [CHR 0x0A], o_stderr = e\<rparr>) = 0 \<and>
    peer_wal_lsn (Some \<lparr>o_success = False, o_stdout = s, o_stderr = e\<rparr>) = None \<and>
    peer_wal_lsn None = None \<and> wal_lsn None = 0"
  using assms
  by (simp add: peer_wal_lsn_def wal_lsn_def sql_result_def trim_output trim_show parse_show_i64
      parse_minus_i64 clamp_simps)

lemma wal_positions_are_read_back_witness:
  "wal_lsn (Some \<lparr>o_success = True, o_stdout = show_nat 42 @ [CHR 0x0A], o_stderr = []\<rparr>) = 42"
  using wal_positions_are_read_back [of 42 "[]" "[]"] by simp

end
