(* ===== verification/Quorum.thy ===== *)
theory Quorum
  imports Prelude
begin

unbundle bit_operations_syntax

text \<open>
  Quorums and the \<open>Model\<close> interface of the model checker. The locale \<open>intersecting\<close>
  is what the code relies on when it compares a count with \<open>n / 2 + 1\<close>: a read quorum
  meets every write quorum. The locale \<open>safe_model\<close> is a \<open>stateright::Model\<close>
  with an invariant; its interpretations are in \<open>Durability\<close> and \<open>Leadership\<close>.
\<close>

section \<open>Intersecting quorums\<close>

locale intersecting =
  fixes U :: "'a set" and R :: "'a set \<Rightarrow> bool" and W :: "'a set \<Rightarrow> bool"
  assumes meet: "R A \<Longrightarrow> W B \<Longrightarrow> A \<subseteq> U \<Longrightarrow> B \<subseteq> U \<Longrightarrow> A \<inter> B \<noteq> {}"
begin

lemma common: "R A \<Longrightarrow> W B \<Longrightarrow> A \<subseteq> U \<Longrightarrow> B \<subseteq> U \<Longrightarrow> \<exists>x. x \<in> A \<and> x \<in> B"
  using meet by blast

lemma disjoint_not_W: "R A \<Longrightarrow> A \<subseteq> U \<Longrightarrow> B \<subseteq> U \<Longrightarrow> A \<inter> B = {} \<Longrightarrow> \<not> W B"
  using meet by blast

end

lemma card_meet:
  assumes "finite U" "A \<subseteq> U" "B \<subseteq> U" "card U < card A + card B"
  shows "A \<inter> B \<noteq> {}"
proof
  assume "A \<inter> B = {}"
  then have "card (A \<union> B) = card A + card B"
    using assms by (intro card_Un_disjoint) (auto intro: finite_subset)
  moreover have "card (A \<union> B) \<le> card U"
    using assms by (intro card_mono) auto
  ultimately show False using assms(4) by simp
qed

text \<open>Counting quorums over \<open>n\<close> numbered nodes: \<open>r\<close> nodes against \<open>n - r + 1\<close>.\<close>

interpretation counted: intersecting "{..<n}" "\<lambda>A. r \<le> card A" "\<lambda>B. n < r + card B"
  for n r :: nat
proof unfold_locales
  fix A B :: "nat set"
  assume "r \<le> card A" "n < r + card B" and sub: "A \<subseteq> {..<n}" "B \<subseteq> {..<n}"
  then have "card {..<n} < card A + card B" by simp
  then show "A \<inter> B \<noteq> {}" using sub by (intro card_meet [of "{..<n}"]) auto
qed

section \<open>Counting by filters\<close>

lemma length_filter_upt: "length (filter P [0..<n]) = card {i. i < n \<and> P i}"
proof -
  have "length (filter P [0..<n]) = card (set (filter P [0..<n]))"
    by (rule distinct_card [symmetric]) simp
  also have "set (filter P [0..<n]) = {i. i < n \<and> P i}" by auto
  finally show ?thesis .
qed

lemma card_upto_mono:
  "(\<And>i. i < n \<Longrightarrow> P i \<Longrightarrow> Q i) \<Longrightarrow> card {i. i < n \<and> P i} \<le> card {i :: nat. i < n \<and> Q i}"
  by (intro card_mono) auto

section \<open>Bit masks\<close>

text \<open>
  Masks of nodes are \<open>u32\<close> values. The shifts are those of the release build, which the runner
  image builds: the distance is taken modulo 32. A build with overflow checks panics instead on
  a distance of 32 or more; below that the two agree.
\<close>

definition shl_u32 :: "u32 \<Rightarrow> nat \<Rightarrow> u32" where
  "shl_u32 x k = push_bit (k mod 32) x"

definition shr_u32 :: "u32 \<Rightarrow> nat \<Rightarrow> u32" where
  "shr_u32 x k = drop_bit (k mod 32) x"

text \<open>\<open>(mask >> i) & 1 == 1\<close>.\<close>

definition mask_bit :: "u32 \<Rightarrow> nat \<Rightarrow> bool" where
  "mask_bit m i \<longleftrightarrow> shr_u32 m i AND 1 = 1"

definition mask_members :: "nat \<Rightarrow> u32 \<Rightarrow> nat list" where
  "mask_members n m = filter (mask_bit m) [0..<n]"

text \<open>\<open>1u32..(1u32 << n)\<close>.\<close>

definition masks :: "nat \<Rightarrow> u32 list" where
  "masks n = map word_of_nat [1..<unat (shl_u32 1 n)]"

lemma set_mask_members: "set (mask_members n m) = {i. i < n \<and> mask_bit m i}"
  by (auto simp: mask_members_def)

lemma distinct_mask_members [simp]: "distinct (mask_members n m)"
  by (simp add: mask_members_def)

lemma mask_bit_iff: "mask_bit m i \<longleftrightarrow> bit m (i mod 32)"
  by (simp add: mask_bit_def shr_u32_def bit_word_iff_drop_bit_and)

lemma shl_one: "n < 32 \<Longrightarrow> unat (shl_u32 1 n) = 2 ^ n"
proof -
  assume "n < 32"
  then have "(2 :: nat) ^ n < 2 ^ 32" by (intro power_strict_increasing) auto
  moreover have "shl_u32 1 n = (word_of_nat (2 ^ n) :: u32)"
    using \<open>n < 32\<close> by (simp add: shl_u32_def push_bit_eq_mult)
  ultimately show ?thesis by (simp add: unat_of_nat del: of_nat_power)
qed

lemma masks_iff: "n < 32 \<Longrightarrow> m \<in> set (masks n) \<longleftrightarrow> m \<noteq> 0 \<and> unat m < 2 ^ n"
proof
  assume n: "n < 32" and "m \<in> set (masks n)"
  then obtain k where k: "1 \<le> k" "k < 2 ^ n" "m = word_of_nat k"
    by (auto simp: masks_def shl_one)
  have "(2 :: nat) ^ n \<le> 2 ^ 31" using n by (intro power_increasing) auto
  then have "unat m = k" using k by (simp add: unat_of_nat)
  then show "m \<noteq> 0 \<and> unat m < 2 ^ n" using k by auto
next
  assume n: "n < 32" and m: "m \<noteq> 0 \<and> unat m < 2 ^ n"
  then have "unat m \<in> {1..<2 ^ n}" by (simp add: Suc_le_eq unat_gt_0)
  moreover have "m = word_of_nat (unat m)" by simp
  ultimately show "m \<in> set (masks n)" unfolding masks_def shl_one [OF n] by (metis imageI set_map set_upt)
qed

text \<open>Every set of fewer than 32 nodes has a mask.\<close>

lemma bits_exist: "A \<subseteq> {..<n} \<Longrightarrow> \<exists>m :: nat. m < 2 ^ n \<and> (\<forall>i. bit m i \<longleftrightarrow> i \<in> A)"
proof (induction n arbitrary: A)
  case 0
  then show ?case by (intro exI [of _ 0]) auto
next
  case (Suc n)
  from Suc.prems have "A - {n} \<subseteq> {..<n}" by (auto simp: less_Suc_eq)
  then obtain m :: nat where m: "m < 2 ^ n" "\<forall>i. bit m i \<longleftrightarrow> i \<in> A - {n}"
    using Suc.IH by blast
  show ?case
  proof (cases "n \<in> A")
    case False
    then show ?thesis using m by (intro exI [of _ m]) auto
  next
    case True
    have nb: "\<not> bit m n" using m True by auto
    have "bit (m + 2 ^ n) i \<longleftrightarrow> i \<in> A" for i
      using m(2) True nb disjunctive_add [of m "2 ^ n"]
      by (auto simp: bit_or_iff bit_exp_iff possible_bit_def)
    then show ?thesis using m(1) by (intro exI [of _ "m + 2 ^ n"]) auto
  qed
qed

lemma mask_exists:
  assumes "A \<subseteq> {..<n}" "n < 32"
  shows "\<exists>m. unat m < 2 ^ n \<and> (\<forall>i < n. mask_bit m i \<longleftrightarrow> i \<in> A)"
proof -
  obtain k :: nat where k: "k < 2 ^ n" "\<forall>i. bit k i \<longleftrightarrow> i \<in> A" using bits_exist [OF assms(1)] by blast
  have "(2 :: nat) ^ n \<le> 2 ^ 31" using assms(2) by (intro power_increasing) auto
  then have eq: "unat (word_of_nat k :: u32) = k" using k(1) by (simp add: unat_of_nat)
  have "mask_bit (word_of_nat k) i \<longleftrightarrow> i \<in> A" if "i < n" for i
  proof -
    have "bit (word_of_nat k :: u32) i \<longleftrightarrow> bit (unat (word_of_nat k :: u32)) i"
      by (simp add: bit_unsigned_iff)
    then show ?thesis using that assms(2) k(2) unfolding eq by (simp add: mask_bit_iff)
  qed
  then show ?thesis using k(1) eq by (intro exI [of _ "word_of_nat k"]) simp
qed

lemma mask_of_members: "i < n \<Longrightarrow> mask_bit m i \<Longrightarrow> m \<noteq> 0"
  by (auto simp: mask_bit_iff)

text \<open>With a multiple of 32 nodes the range of masks is empty.\<close>

lemma masks_overflow: "n mod 32 = 0 \<Longrightarrow> masks n = []"
  by (simp add: masks_def shl_u32_def)

section \<open>The Model interface\<close>

text \<open>
  The states \<open>stateright\<close> explores: the initial states and the results of enabled
  actions, within the model's boundary.
\<close>

inductive explored ::
    "'s list \<Rightarrow> ('s \<Rightarrow> 'a list) \<Rightarrow> ('s \<Rightarrow> 'a \<Rightarrow> 's option) \<Rightarrow> ('s \<Rightarrow> bool) \<Rightarrow> 's \<Rightarrow> bool"
  for init acts nxt within where
  explored_init: "s \<in> set init \<Longrightarrow> within s \<Longrightarrow> explored init acts nxt within s"
| explored_step: "explored init acts nxt within s \<Longrightarrow> a \<in> set (acts s) \<Longrightarrow> nxt s a = Some t \<Longrightarrow>
    within t \<Longrightarrow> explored init acts nxt within t"

locale safe_model =
  fixes init :: "'s list" and acts :: "'s \<Rightarrow> 'a list" and nxt :: "'s \<Rightarrow> 'a \<Rightarrow> 's option"
    and within :: "'s \<Rightarrow> bool" and inv :: "'s \<Rightarrow> bool"
  assumes inv_init: "s \<in> set init \<Longrightarrow> inv s"
    and inv_step: "inv s \<Longrightarrow> a \<in> set (acts s) \<Longrightarrow> nxt s a = Some t \<Longrightarrow> inv t"
begin

lemma explored_inv: "explored init acts nxt within s \<Longrightarrow> inv s"
  by (induction rule: explored.induct) (auto intro: inv_init inv_step)

end

end
