(* ===== verification/BTree.thy ===== *)
theory BTree
  imports Prelude
begin

text \<open>
  \<open>BTreeMap\<close> as the list of its entries in key order, with the methods the log uses:
  \<open>insert\<close>, \<open>remove\<close>, \<open>range\<close> and the iterator from the back. The interface
  \<open>ordered_map\<close> states what the log relies on; the log's lemmas are proved from it.
\<close>

section \<open>The map\<close>

type_synonym ('k, 'v) btree = "('k \<times> 'v) list"

fun bt_insert :: "'k::linorder \<Rightarrow> 'v \<Rightarrow> ('k, 'v) btree \<Rightarrow> ('k, 'v) btree" where
  "bt_insert k v [] = [(k, v)]"
| "bt_insert k v ((k', v') # m) =
     (if k < k' then (k, v) # (k', v') # m
      else if k = k' then (k, v) # m
      else (k', v') # bt_insert k v m)"

definition bt_remove :: "'k \<Rightarrow> ('k, 'v) btree \<Rightarrow> ('k, 'v) btree" where
  "bt_remove k m = filter (\<lambda>(k', _). k' \<noteq> k) m"

definition bt_ok :: "('k::linorder, 'v) btree \<Rightarrow> bool" where
  "bt_ok m = sorted_wrt (<) (map fst m)"

definition bt_last :: "('k, 'v) btree \<Rightarrow> 'v option" where
  "bt_last m = (if m = [] then None else Some (snd (last m)))"

text \<open>
  \<open>RangeBounds\<close>. \<open>range\<close> panics when the lower bound is above the upper one, or when
  both exclude the same key.
\<close>

datatype 'k bound = Included 'k | Excluded 'k | Unbounded

fun above :: "'k::linorder bound \<Rightarrow> 'k \<Rightarrow> bool" where
  "above (Included b) k = (b \<le> k)"
| "above (Excluded b) k = (b < k)"
| "above Unbounded k = True"

fun below :: "'k::linorder bound \<Rightarrow> 'k \<Rightarrow> bool" where
  "below (Included b) k = (k \<le> b)"
| "below (Excluded b) k = (k < b)"
| "below Unbounded k = True"

fun range_panics :: "'k::linorder bound \<Rightarrow> 'k bound \<Rightarrow> bool" where
  "range_panics (Excluded a) (Excluded b) = (b \<le> a)"
| "range_panics (Included a) (Included b) = (b < a)"
| "range_panics (Included a) (Excluded b) = (b < a)"
| "range_panics (Excluded a) (Included b) = (b < a)"
| "range_panics _ _ = False"

definition bt_range :: "'k::linorder bound \<Rightarrow> 'k bound \<Rightarrow> ('k, 'v) btree \<Rightarrow> ('k, 'v) btree option" where
  "bt_range lo hi m =
     (if range_panics lo hi then None else Some (filter (\<lambda>(k, _). above lo k \<and> below hi k) m))"

section \<open>The interface\<close>

locale ordered_map =
  fixes look :: "'m \<Rightarrow> 'k::linorder \<Rightarrow> 'v option" and ins :: "'k \<Rightarrow> 'v \<Rightarrow> 'm \<Rightarrow> 'm"
    and del :: "'k \<Rightarrow> 'm \<Rightarrow> 'm" and ents :: "'m \<Rightarrow> ('k \<times> 'v) list" and valid :: "'m \<Rightarrow> bool"
  assumes look_ins: "valid m \<Longrightarrow> look (ins k v m) = (look m)(k \<mapsto> v)"
    and look_del: "valid m \<Longrightarrow> look (del k m) = (look m)(k := None)"
    and valid_ins: "valid m \<Longrightarrow> valid (ins k v m)"
    and valid_del: "valid m \<Longrightarrow> valid (del k m)"
    and ents_sorted: "valid m \<Longrightarrow> sorted_wrt (<) (map fst (ents m))"
    and ents_look: "valid m \<Longrightarrow> (k, v) \<in> set (ents m) \<longleftrightarrow> look m k = Some v"
begin

lemma ins_list:
  "valid m \<Longrightarrow> valid (foldl (\<lambda>m (k, v). ins k v m) m kvs) \<and>
     look (foldl (\<lambda>m (k, v). ins k v m) m kvs) = look m ++ map_of (rev kvs)"
proof (induction kvs arbitrary: m)
  case (Cons kv kvs)
  obtain k v where kv: "kv = (k, v)" by (cases kv)
  show ?case
    using Cons.IH [OF valid_ins [OF Cons.prems, of k v]] Cons.prems
    by (auto simp: kv look_ins map_add_def fun_eq_iff split: option.split)
qed simp

lemma del_list:
  "valid m \<Longrightarrow> valid (foldl (\<lambda>m k. del k m) m ks) \<and>
     look (foldl (\<lambda>m k. del k m) m ks) = look m |` (- set ks)"
proof (induction ks arbitrary: m)
  case (Cons k ks)
  show ?case
    using Cons.IH [OF valid_del [OF Cons.prems, of k]] Cons.prems
    by (auto simp: look_del restrict_map_def fun_eq_iff)
qed (simp add: restrict_map_def)

text \<open>Removing every key in a set of keys, as \<open>truncate\<close> and \<open>purge\<close> do.\<close>

lemma del_matching:
  "valid m \<Longrightarrow>
     look (foldl (\<lambda>m k. del k m) m (map fst (filter (\<lambda>(k, _). P k) (ents m)))) =
       look m |` {k. \<not> P k}"
proof -
  assume m: "valid m"
  have "set (map fst (filter (\<lambda>(k, _). P k) (ents m))) = {k. P k \<and> look m k \<noteq> None}"
    using ents_look [OF m] by (auto simp: image_iff)
  then show ?thesis
    using del_list [OF m, of "map fst (filter (\<lambda>(k, _). P k) (ents m))"]
    by (auto simp: restrict_map_def fun_eq_iff)
qed

lemma last_greatest:
  "valid m \<Longrightarrow> ents m \<noteq> [] \<Longrightarrow> look m k = Some v \<Longrightarrow> k \<le> fst (last (ents m))"
proof -
  assume m: "valid m" and ne: "ents m \<noteq> []" and k: "look m k = Some v"
  then have "(k, v) \<in> set (ents m)" by (simp add: ents_look)
  moreover obtain es e where es: "ents m = es @ [e]" using ne by (cases "ents m" rule: rev_cases) auto
  ultimately show ?thesis
    using ents_sorted [OF m] by (auto simp: es sorted_wrt_append)
qed

end

section \<open>The list implementation\<close>

lemma bt_insert_keys: "fst ` set (bt_insert k v m) = insert k (fst ` set m)"
  by (induction m rule: bt_insert.induct) auto

lemma bt_ok_insert: "bt_ok m \<Longrightarrow> bt_ok (bt_insert k v m)"
proof (induction m)
  case (Cons e m)
  obtain k' v' where e: "e = (k', v')" by (cases e)
  have "\<forall>x \<in> fst ` set (bt_insert k v m). k' < x" if "k' < k"
    using Cons.prems that unfolding bt_insert_keys by (auto simp: bt_ok_def e)
  then show ?case
    using Cons by (auto simp: bt_ok_def e)
qed (simp add: bt_ok_def)

lemma map_of_bt_insert: "bt_ok m \<Longrightarrow> map_of (bt_insert k v m) = (map_of m)(k \<mapsto> v)"
  by (induction m rule: bt_insert.induct) (auto simp: bt_ok_def fun_eq_iff)

lemma bt_ok_filter: "bt_ok m \<Longrightarrow> bt_ok (filter P m)"
  by (induction m) (auto simp: bt_ok_def)

lemma map_of_bt_remove: "map_of (bt_remove k m) = (map_of m)(k := None)"
  by (induction m) (auto simp: bt_remove_def fun_eq_iff)

lemma bt_ok_distinct: "bt_ok m \<Longrightarrow> distinct (map fst m)"
  by (simp add: bt_ok_def strict_sorted_iff)

lemma bt_ok_remove: "bt_ok m \<Longrightarrow> bt_ok (bt_remove k m)"
  by (simp add: bt_remove_def bt_ok_filter)

lemma bt_ok_sorted: "bt_ok m \<Longrightarrow> sorted_wrt (<) (map fst m)"
  by (simp add: bt_ok_def)

interpretation bt: ordered_map map_of bt_insert bt_remove "\<lambda>m. m" bt_ok
  by unfold_locales
    (simp_all add: map_of_bt_insert map_of_bt_remove bt_ok_insert bt_ok_remove bt_ok_sorted
      bt_ok_distinct)

end
