(* ===== verification/Startup.thy ===== *)
theory Startup
  imports Settings Psql Quorum BTree
begin

text \<open>
  \<open>src/lib.rs\<close> up to the loop of \<open>pg_replica_supervisor_main\<close>, and what \<open>src/raft_node.rs\<close>
  computes when it starts: the checks of the configuration, the values derived from it, the
  member map and the Raft timing.
\<close>

section \<open>Strings for PostgreSQL\<close>

definition other_members :: "u64 \<Rightarrow> peer list \<Rightarrow> peer list" where
  "other_members node_id members = filter (\<lambda>m. p_id m \<noteq> node_id) members"

definition standby_conninfo :: "peer list \<Rightarrow> string \<Rightarrow> u64 \<Rightarrow> string" where
  "standby_conninfo members passfile node_id =
     (let addrs = map (\<lambda>m. split_host_port (p_addr m)) (other_members node_id members);
          passfile_kw = (if passfile = [] then [] else '' passfile='' @ passfile)
      in ''host='' @ join '','' (map fst addrs) @ '' port='' @ join '','' (map snd addrs)
         @ '' user=replicator'' @ passfile_kw
         @ '' target_session_attrs=read-write application_name=node'' @ show_u64 node_id)"

definition majority :: "u64 list \<Rightarrow> nat" where
  "majority voters = length voters div 2 + 1"

definition sync_quorum :: "u64 list \<Rightarrow> nat" where
  "sync_quorum voters = majority voters - 1"

definition sync_names :: "u64 \<Rightarrow> u64 list \<Rightarrow> string list" where
  "sync_names node_id voters = map (\<lambda>v. ''node'' @ show_u64 v) (filter (\<lambda>v. v \<noteq> node_id) voters)"

definition sync_target :: "u64 \<Rightarrow> u64 list \<Rightarrow> string" where
  "sync_target node_id voters =
     (if sync_quorum voters \<ge> 1
      then ''ANY '' @ show_nat (sync_quorum voters) @ '' ('' @ join '', '' (sync_names node_id voters) @ '')''
      else [])"

section \<open>Checking the configuration\<close>

fun duplicate_errors :: "string \<Rightarrow> u64 list \<Rightarrow> u64 list \<Rightarrow> string list" where
  "duplicate_errors setting seen [] = []"
| "duplicate_errors setting seen (v # vs) =
     (if v \<in> set seen then [''duplicate node id '' @ show_u64 v @ '' in '' @ setting] else [])
     @ duplicate_errors setting (v # seen) vs"

definition missing_error :: "string \<Rightarrow> u64 \<Rightarrow> u64 list \<Rightarrow> string list" where
  "missing_error setting node_id ids =
     (if node_id \<in> set ids then []
      else [setting @ '' has no entry for this node (node_id='' @ show_u64 node_id @ '')''])"

definition config_errors :: "u64 \<Rightarrow> u64 list \<Rightarrow> peer list \<Rightarrow> string \<Rightarrow> string list" where
  "config_errors node_id voters members raft_dir =
     duplicate_errors ''pg_replica.peers'' [] voters
     @ duplicate_errors ''pg_replica.pg_addrs'' [] (map p_id members)
     @ missing_error ''pg_replica.peers'' node_id voters
     @ missing_error ''pg_replica.pg_addrs'' node_id (map p_id members)
     @ (if raft_dir = [] then [''pg_replica.raft_dir is unset; it must point at durable node-local storage outside the data directory (never /tmp)'']
        else [])"

definition member_addr :: "u64 \<Rightarrow> peer list \<Rightarrow> string option" where
  "member_addr i members = map_option p_addr (find (\<lambda>m. p_id m = i) members)"

text \<open>The voters without a PostgreSQL address, of which the supervisor warns.\<close>

definition unreachable_voters :: "u64 list \<Rightarrow> peer list \<Rightarrow> u64 list" where
  "unreachable_voters voters members = filter (\<lambda>v. \<not> list_ex (\<lambda>m. p_id m = v) members) voters"

section \<open>The values of a configured supervisor\<close>

record sup_cfg =
  cf_node_id :: u64
  cf_port :: u16
  cf_voters :: "u64 list"
  cf_peers :: "peer list"
  cf_members :: "peer list"
  cf_raft_dir :: string
  cf_target :: sql_target
  cf_pgbin :: string
  cf_rejoin_script :: string
  cf_majority :: nat
  cf_sync_target :: string
  cf_synchronous :: bool
  cf_heartbeat_file :: string
  cf_watchdog_script :: string
  cf_compact_threshold :: u64
  cf_env :: "string \<Rightarrow> string option"

datatype startup = Unconfigured | Invalid "string list" | Start sup_cfg

text \<open>
  \<open>env\<close> is the environment of the process; the supervisor sets \<open>PGPASSFILE\<close> in it first, so that
  every program it starts inherits it.
\<close>

definition with_passfile :: "string \<Rightarrow> (string \<Rightarrow> string option) \<Rightarrow> string \<Rightarrow> string option" where
  "with_passfile passfile env =
     (if passfile \<noteq> [] then env(''PGPASSFILE'' := Some passfile) else env)"

definition startup :: "(string \<Rightarrow> string option) \<Rightarrow> guc_values \<Rightarrow> startup" where
  "startup env v =
     (let (passfile, c1) = cfg_passfile v new_caches;
          env1 = with_passfile passfile env;
          node_id = node_id_u64 v;
          peers = parse_peers (cfg_peers v);
          voters = map p_id peers
      in if node_id = 0 \<or> voters = [] then Unconfigured
         else
           let members = parse_peers (cfg_pg_addrs v);
               raft_dir = cfg_raft_dir v;
               (user, c2) = cfg_apply_user env1 v c1;
               (db, c3) = cfg_apply_db env1 v c2;
               errors = config_errors node_id voters members raft_dir
           in if errors \<noteq> [] then Invalid errors
              else
                let psql = cfg_psql v;
                    (host, port) = split_host_port (unwrap_or [] (member_addr node_id members))
                in Start
                  \<lparr>cf_node_id = node_id, cf_port = raft_port_u16 v, cf_voters = voters, cf_peers = peers,
                   cf_members = members, cf_raft_dir = raft_dir,
                   cf_target = \<lparr>t_psql = psql, t_host = host, t_port = port, t_user = user, t_db = db,
                     t_passfile = passfile\<rparr>,
                   cf_pgbin = parent_dir psql, cf_rejoin_script = cfg_rejoin_script v,
                   cf_majority = majority voters, cf_sync_target = sync_target node_id voters,
                   cf_synchronous = v_synchronous v,
                   cf_heartbeat_file = raft_dir @ ''/pg_replica_hb_'' @ show_u64 node_id,
                   cf_watchdog_script = cfg_watchdog_script v,
                   cf_compact_threshold = compact_threshold_u64 v, cf_env = env1\<rparr>)"

section \<open>The Raft node\<close>

definition raft_peers :: "sup_cfg \<Rightarrow> (u64 \<times> string) list" where
  "raft_peers cfg = map (\<lambda>p. (p_id p, p_addr p)) (cf_peers cfg)"

text \<open>The member map \<open>RaftHandle::start\<close> collects and \<open>bootstrap\<close> initialises Raft with.\<close>

definition raft_members :: "(u64 \<times> string) list \<Rightarrow> (u64, string) btree" where
  "raft_members peers = foldl (\<lambda>m (k, v). bt_insert k v m) [] peers"

record raft_config =
  heartbeat_interval :: nat
  election_timeout_min :: nat
  election_timeout_max :: nat
  snapshot_logs_since_last :: u64
  max_in_snapshot_log_to_keep :: nat

definition raft_config_of :: "u64 \<Rightarrow> raft_config" where
  "raft_config_of threshold =
     \<lparr>heartbeat_interval = 250, election_timeout_min = 1000, election_timeout_max = 2000,
      snapshot_logs_since_last = threshold, max_in_snapshot_log_to_keep = 0\<rparr>"

datatype server_state = Leader | Follower | Candidate | Learner | Shutdown

record metrics =
  mt_state :: server_state
  mt_term :: u64
  mt_leader :: "u64 option"

definition is_leader :: "metrics \<Rightarrow> bool" where
  "is_leader m = (mt_state m = Leader)"

definition leader_id :: "metrics \<Rightarrow> u64" where
  "leader_id m = unwrap_or 0 (mt_leader m)"

definition role_name :: "metrics \<Rightarrow> string" where
  "role_name m = (case mt_state m of Leader \<Rightarrow> ''leader'' | Follower \<Rightarrow> ''follower''
     | Candidate \<Rightarrow> ''candidate'' | Learner \<Rightarrow> ''learner'' | Shutdown \<Rightarrow> ''shutdown'')"

section \<open>Lemmas\<close>

lemma duplicate_errors_none:
  "duplicate_errors setting seen vs = [] \<longleftrightarrow> distinct vs \<and> set vs \<inter> set seen = {}"
  by (induction vs arbitrary: seen) auto

lemma config_errors_none:
  "config_errors node_id voters members raft_dir = [] \<longleftrightarrow>
     distinct voters \<and> distinct (map p_id members) \<and> node_id \<in> set voters \<and>
     node_id \<in> p_id ` set members \<and> raft_dir \<noteq> []"
  by (auto simp: config_errors_def duplicate_errors_none missing_error_def)

lemma member_addr_distinct:
  "distinct (map p_id ms) \<Longrightarrow> m \<in> set ms \<Longrightarrow> member_addr (p_id m) ms = Some (p_addr m)"
  by (induction ms) (auto simp: member_addr_def)

lemma startup_start:
  assumes "startup env v = Start cfg"
  shows "cf_node_id cfg = node_id_u64 v \<and> cf_node_id cfg \<noteq> 0 \<and>
    cf_voters cfg = map p_id (parse_peers (cfg_peers v)) \<and> cf_members cfg = parse_peers (cfg_pg_addrs v) \<and>
    config_errors (cf_node_id cfg) (cf_voters cfg) (cf_members cfg) (cf_raft_dir cfg) = [] \<and>
    cf_majority cfg = majority (cf_voters cfg) \<and>
    cf_sync_target cfg = sync_target (cf_node_id cfg) (cf_voters cfg) \<and>
    cf_synchronous cfg = v_synchronous v \<and> cf_peers cfg = parse_peers (cfg_peers v) \<and>
    (t_host (cf_target cfg), t_port (cf_target cfg)) =
      split_host_port (unwrap_or [] (member_addr (cf_node_id cfg) (cf_members cfg)))"
  using assms
  by (auto simp: startup_def Let_def case_prod_unfold split: if_splits)

lemma majority_twice: "length vs < 2 * majority vs"
  by (simp add: majority_def)

text \<open>Two majorities of the voters meet.\<close>

interpretation voters: intersecting "set vs" "\<lambda>A. majority vs \<le> card A" "\<lambda>B. majority vs \<le> card B"
  for vs :: "u64 list"
proof unfold_locales
  fix A B :: "u64 set"
  assume "majority vs \<le> card A" "majority vs \<le> card B" and sub: "A \<subseteq> set vs" "B \<subseteq> set vs"
  then have "card (set vs) < card A + card B"
    using majority_twice [of vs] card_length [of vs] by linarith
  then show "A \<inter> B \<noteq> {}" using sub by (intro card_meet [of "set vs"]) auto
qed

lemma startup_facts:
  assumes "startup env v = Start cfg"
  shows "cf_node_id cfg \<noteq> 0" "distinct (cf_voters cfg)" "cf_node_id cfg \<in> set (cf_voters cfg)"
    "cf_majority cfg = majority (cf_voters cfg)" "distinct (map p_id (cf_members cfg))"
    "cf_raft_dir cfg \<noteq> []" "cf_sync_target cfg = sync_target (cf_node_id cfg) (cf_voters cfg)"
    "(t_host (cf_target cfg), t_port (cf_target cfg)) =
       split_host_port (unwrap_or [] (member_addr (cf_node_id cfg) (cf_members cfg)))"
  using startup_start [OF assms] unfolding config_errors_none by blast+

text \<open>With a configured passfile every program the supervisor starts authenticates from it.\<close>

lemma children_use_the_passfile:
  assumes "startup env v = Start cfg" "unwrap_or [] (v_passfile v) = file" "file \<noteq> []"
  shows "child_env (cf_env cfg) (sql_command (cf_target cfg) q) ''PGPASSFILE'' = Some file"
    "child_env (cf_env cfg) (peer_lsn_command psql host port) ''PGPASSFILE'' = Some file"
    "child_env (cf_env cfg) (watchdog_command a b c d e i u) ''PGPASSFILE'' = Some file"
    "child_env (cf_env cfg) (rejoin_command a b c d e i f g) ''PGPASSFILE'' = Some file"
  using assms
  by (auto simp: startup_def Let_def case_prod_unfold cfg_passfile_def new_caches_def with_passfile_def
      child_env_def sql_command_def peer_lsn_command_def watchdog_command_def rejoin_command_def split: if_splits)

section \<open>The meaning of the standby list\<close>

text \<open>
  How PostgreSQL reads \<open>synchronous_standby_names\<close>, as its documentation says: \<open>satisfied s acks\<close> is
  whether a commit may be acknowledged when the standbys named \<open>acks\<close> have confirmed it. An empty
  setting waits for nobody, \<open>ANY k (names)\<close> for \<open>k\<close> of the names.
\<close>

definition standby_name :: "string \<Rightarrow> bool" where
  "standby_name s \<longleftrightarrow> s \<noteq> [] \<and> list_all (\<lambda>c. (97 \<le> (of_char c :: nat) \<and> (of_char c :: nat) \<le> 122) \<or> digit_value c \<noteq> None) s"

definition any_setting :: "nat \<Rightarrow> string list \<Rightarrow> string" where
  "any_setting k names = ''ANY '' @ show_nat k @ '' ('' @ join '', '' names @ '')''"

definition sync_semantics :: "(string \<Rightarrow> string set \<Rightarrow> bool) \<Rightarrow> bool" where
  "sync_semantics satisfied \<longleftrightarrow> (\<forall>acks. satisfied [] acks) \<and>
     (\<forall>k names acks. 1 \<le> k \<longrightarrow> k \<le> length names \<longrightarrow> distinct names \<longrightarrow> list_all standby_name names \<longrightarrow>
        satisfied (any_setting k names) acks \<longleftrightarrow> k \<le> card (set names \<inter> acks))"

text \<open>A reading of the setting with this meaning.\<close>

definition read_setting :: "string \<Rightarrow> string set \<Rightarrow> bool" where
  "read_setting s acks =
     (case split_once CHR ''('' s of
        None \<Rightarrow> True
      | Some (head, rest) \<Rightarrow>
          (let digits = trim (drop 4 head); names = map trim (split_on CHR '','' (butlast rest))
           in case parse_digits (10 ^ length digits) 0 digits of
                None \<Rightarrow> False
              | Some k \<Rightarrow> k \<le> card (set names \<inter> acks)))"

lemma show_nat_bound: "m < 10 ^ length (show_nat m)"
proof (induction m rule: show_nat.induct)
  case (1 m)
  show ?case
  proof (cases "m < 10")
    case False
    then have "m div 10 < 10 ^ length (show_nat (m div 10))" by (rule "1.IH")
    then have "m < 10 * 10 ^ length (show_nat (m div 10))" by linarith
    then show ?thesis using False by (simp add: show_nat.simps [of m])
  qed (simp add: show_nat.simps [of m])
qed

lemma show_nat_inject: "show_nat a = show_nat b \<longleftrightarrow> a = b"
proof
  assume eq: "show_nat a = show_nat b"
  have "parse_digits (10 ^ length (show_nat a)) 0 (show_nat a) = Some a"
    "parse_digits (10 ^ length (show_nat b)) 0 (show_nat b) = Some b"
    by (rule parse_show_nat, rule show_nat_bound)+
  then show "a = b" unfolding eq by simp
qed simp

lemma standby_name_ends:
  assumes "standby_name s"
  shows "s \<noteq> []" "\<not> is_whitespace (hd s)" "\<not> is_whitespace (last s)" "CHR '','' \<notin> set s" "CHR ''('' \<notin> set s"
proof -
  show ne: "s \<noteq> []" using assms by (simp add: standby_name_def)
  have all: "\<not> is_whitespace c \<and> c \<noteq> CHR '','' \<and> c \<noteq> CHR ''(''" if "c \<in> set s" for c
  proof -
    have "(97 \<le> (of_char c :: nat) \<and> (of_char c :: nat) \<le> 122) \<or> digit_value c \<noteq> None"
      using assms that by (auto simp: standby_name_def list_all_iff)
    then show ?thesis by (auto simp: is_whitespace_def digit_value_def Let_def split: if_splits)
  qed
  show "\<not> is_whitespace (hd s)" "\<not> is_whitespace (last s)" "CHR '','' \<notin> set s" "CHR ''('' \<notin> set s"
    using all ne by auto
qed

lemma split_names:
  "list_all standby_name (x # xs) \<Longrightarrow>
     split_on CHR '','' (join '', '' (x # xs)) = x # map (Cons CHR '' '') xs"
proof (induction xs arbitrary: x)
  case Nil
  then show ?case by (simp add: split_on_id standby_name_ends)
next
  case (Cons y ys)
  have "split_on CHR '','' (x @ CHR '','' # (CHR '' '' # join '', '' (y # ys))) =
      split_on CHR '','' x @ split_on CHR '','' (CHR '' '' # join '', '' (y # ys))"
    by (rule split_on_append)
  then show ?case using Cons by (simp add: split_on_id standby_name_ends)
qed

lemma trim_names: "list_all standby_name xs \<Longrightarrow> map trim (map (Cons CHR '' '') xs) = xs"
  "list_all standby_name xs \<Longrightarrow> map trim xs = xs"
proof -
  have blank: "is_whitespace CHR '' ''" by code_simp
  have name: "trim s = s \<and> trim (CHR '' '' # s) = s" if "standby_name s" for s
    using trim_id [OF standby_name_ends(1-3) [OF that]] by (simp add: trim_def blank)
  show "list_all standby_name xs \<Longrightarrow> map trim (map (Cons CHR '' '') xs) = xs"
    "list_all standby_name xs \<Longrightarrow> map trim xs = xs"
    using name by (induction xs) auto
qed

lemma read_setting: "sync_semantics read_setting"
  unfolding sync_semantics_def
proof (intro conjI allI impI)
  fix acks
  show "read_setting [] acks" by (simp add: read_setting_def)
next
  fix k names acks
  assume k: "1 \<le> k" "k \<le> length names" and n: "list_all standby_name names"
  then obtain x xs where names: "names = x # xs" by (cases names) auto
  have digits: "c \<in> set (show_nat k) \<Longrightarrow> c \<noteq> CHR ''(''" for c
    using show_nat_digits [of c k] by (auto simp: digit_value_def Let_def)
  have blank: "is_whitespace CHR '' ''" by code_simp
  have "trim (show_nat k @ '' '') = show_nat k"
    using trim_id [of "show_nat k"] show_nat_ends [of k] digit_not_whitespace dropWhile_hd [of "show_nat k @ '' ''" is_whitespace]
    by (simp add: trim_def blank dropWhile_hd)
  moreover have "split_once CHR ''('' (any_setting k names) =
      Some (''ANY '' @ show_nat k @ '' '', join '', '' names @ '')'')"
  proof -
    have eq: "any_setting k names = (''ANY '' @ show_nat k @ '' '') @ CHR ''('' # (join '', '' names @ '')'')"
      by (simp add: any_setting_def)
    have "CHR ''('' \<notin> set (''ANY '' @ show_nat k @ '' '')" using digits by auto
    then show ?thesis unfolding eq by (rule split_once_append)
  qed
  moreover have "map trim (split_on CHR '','' (join '', '' names)) = names"
    using n split_names [of x xs] trim_names [of "[x]"] trim_names [of xs] unfolding names by simp
  ultimately show "read_setting (any_setting k names) acks \<longleftrightarrow> k \<le> card (set names \<inter> acks)"
    by (simp add: read_setting_def Let_def parse_show_nat show_nat_bound del: set_map)
qed

section \<open>Properties\<close>

text \<open>
  C35: The supervisor starts exactly on a usable configuration: a non-zero node id, at least one
  peer, no duplicate id in either list, an entry for this node in both, and a Raft directory;
  it then controls the PostgreSQL server at this node's own address.
\<close>

theorem supervisor_starts_iff_configured:
  "((\<exists>cfg. startup env v = Start cfg) \<longleftrightarrow>
      node_id_u64 v \<noteq> 0 \<and> parse_peers (cfg_peers v) \<noteq> [] \<and>
      distinct (map p_id (parse_peers (cfg_peers v))) \<and>
      distinct (map p_id (parse_peers (cfg_pg_addrs v))) \<and>
      node_id_u64 v \<in> p_id ` set (parse_peers (cfg_peers v)) \<and>
      node_id_u64 v \<in> p_id ` set (parse_peers (cfg_pg_addrs v)) \<and> cfg_raft_dir v \<noteq> []) \<and>
   (\<forall>cfg m. startup env v = Start cfg \<longrightarrow> m \<in> set (cf_members cfg) \<longrightarrow> p_id m = cf_node_id cfg \<longrightarrow>
      (t_host (cf_target cfg), t_port (cf_target cfg)) = split_host_port (p_addr m))"
proof
  show "(\<exists>cfg. startup env v = Start cfg) \<longleftrightarrow>
      node_id_u64 v \<noteq> 0 \<and> parse_peers (cfg_peers v) \<noteq> [] \<and>
      distinct (map p_id (parse_peers (cfg_peers v))) \<and>
      distinct (map p_id (parse_peers (cfg_pg_addrs v))) \<and>
      node_id_u64 v \<in> p_id ` set (parse_peers (cfg_peers v)) \<and>
      node_id_u64 v \<in> p_id ` set (parse_peers (cfg_pg_addrs v)) \<and> cfg_raft_dir v \<noteq> []"
    by (auto simp: startup_def Let_def case_prod_unfold config_errors_none)
  show "\<forall>cfg m. startup env v = Start cfg \<longrightarrow> m \<in> set (cf_members cfg) \<longrightarrow> p_id m = cf_node_id cfg \<longrightarrow>
      (t_host (cf_target cfg), t_port (cf_target cfg)) = split_host_port (p_addr m)"
  proof (intro allI impI)
    fix cfg m
    assume "startup env v = Start cfg" and m: "m \<in> set (cf_members cfg)" "p_id m = cf_node_id cfg"
    note facts = startup_facts [OF this(1)]
    from member_addr_distinct [OF facts(5) m(1)] m(2) facts(8)
    show "(t_host (cf_target cfg), t_port (cf_target cfg)) = split_host_port (p_addr m)" by simp
  qed
qed

definition values_ex :: guc_values where
  "values_ex = default_values\<lparr>v_synchronous := True, v_node_id := 1,
     v_peers := Some ''1@a:1,2@b:2,3@c:3'', v_pg_addrs := Some ''1@a:5432,2@b:5432,3@c:5432'',
     v_raft_dir := Some ''/raft''\<rparr>"

definition cfg_ex :: sup_cfg where
  "cfg_ex = \<lparr>cf_node_id = 1, cf_port = 7400, cf_voters = [1, 2, 3],
     cf_peers = [\<lparr>p_id = 1, p_addr = ''a:1''\<rparr>, \<lparr>p_id = 2, p_addr = ''b:2''\<rparr>, \<lparr>p_id = 3, p_addr = ''c:3''\<rparr>],
     cf_members = [\<lparr>p_id = 1, p_addr = ''a:5432''\<rparr>, \<lparr>p_id = 2, p_addr = ''b:5432''\<rparr>,
       \<lparr>p_id = 3, p_addr = ''c:5432''\<rparr>],
     cf_raft_dir = ''/raft'',
     cf_target = \<lparr>t_psql = ''psql'', t_host = ''a'', t_port = ''5432'', t_user = ''postgres'',
       t_db = ''postgres'', t_passfile = []\<rparr>,
     cf_pgbin = ''.'', cf_rejoin_script = [], cf_majority = 2,
     cf_sync_target = ''ANY 1 (node2, node3)'', cf_synchronous = True,
     cf_heartbeat_file = ''/raft/pg_replica_hb_1'', cf_watchdog_script = [], cf_compact_threshold = 64,
     cf_env = \<lambda>_. None\<rparr>"

lemma peers_ex:
  "parse_peers ''1@a:1,2@b:2,3@c:3'' = cf_peers cfg_ex"
  "parse_peers ''1@a:5432,2@b:5432,3@c:5432'' = cf_members cfg_ex"
  by (simp_all add: parse_peers_def map_filter_simps parse_peer_def split_once_def trim_def
      is_whitespace_def parse_u64_def digit_value_def Let_def cfg_ex_def)

lemma startup_ex: "startup (\<lambda>_. None) values_ex = Start cfg_ex"
proof -
  have v: "v_peers values_ex = Some ''1@a:1,2@b:2,3@c:3''"
    "v_pg_addrs values_ex = Some ''1@a:5432,2@b:5432,3@c:5432''"
    by (simp_all add: values_ex_def)
  have peers: "parse_peers (cfg_peers values_ex) = cf_peers cfg_ex"
    "parse_peers (cfg_pg_addrs values_ex) = cf_members cfg_ex"
    unfolding cfg_peers_def cfg_pg_addrs_def v unwrap_or_simps by (rule peers_ex)+
  have user: "cfg_apply_user (\<lambda>_. None) values_ex c = (let r = unwrap_or ''postgres'' (apply_user_cache c)
      in (r, c\<lparr>apply_user_cache := Some r\<rparr>))"
    "cfg_apply_db (\<lambda>_. None) values_ex c = (let r = unwrap_or ''postgres'' (apply_db_cache c)
      in (r, c\<lparr>apply_db_cache := Some r\<rparr>))" for c
    by (simp_all add: cfg_apply_user_def cfg_apply_db_def values_ex_def default_values_def non_empty_def
        or_else_def unwrap_or_def split: option.split)
  have target: "sync_target 1 [1, 2, 3] = ''ANY 1 (node2, node3)''"
    "split_host_port ''a:5432'' = (''a'', ''5432'')" "show_u64 1 = ''1''"
    "node_id_u64 values_ex = 1" "raft_port_u16 values_ex = 7400" "compact_threshold_u64 values_ex = 64"
    by code_simp+
  have dir: "parent_dir ''psql'' = ''.''" by (simp add: parent_dir_def)
  show ?thesis
    unfolding startup_def peers
    by (simp add: Let_def user target dir cfg_passfile_def new_caches_def config_errors_none cfg_ex_def
        member_addr_def majority_def cfg_raft_dir_def cfg_psql_def non_empty_def cfg_rejoin_script_def
        cfg_watchdog_script_def with_passfile_def)
      (simp add: values_ex_def default_values_def dir)
qed

theorem supervisor_starts_iff_configured_witness:
  "node_id_u64 values_ex \<noteq> 0 \<and> split_host_port ''a:5432'' = (''a'', ''5432'')"
  using supervisor_starts_iff_configured [of "\<lambda>_. None" values_ex] startup_ex
  by (auto simp: cfg_ex_def)

text \<open>
  C12: The synchronous standby setting makes exactly the right commits safe: PostgreSQL, reading the
  configured setting, may acknowledge a commit when a set of standbys has confirmed it if and only
  if those of them that are voters, together with this node, are a majority of the voters; every
  later majority of voters (a Raft quorum) then contains one of them. The names in the setting are
  those under which the standbys connect: the connection string of a node ends with its name.
\<close>

theorem sync_quorum_meets_every_majority:
  assumes "startup env v = Start cfg" "sync_semantics satisfied"
    and "A = insert (cf_node_id cfg) {k \<in> set (cf_voters cfg). ''node'' @ show_u64 k \<in> acks}"
  shows "(satisfied (cf_sync_target cfg) acks \<longleftrightarrow> cf_majority cfg \<le> card A) \<and>
    (satisfied (cf_sync_target cfg) acks \<longrightarrow>
      (\<forall>M \<subseteq> set (cf_voters cfg). cf_majority cfg \<le> card M \<longrightarrow> M \<inter> A \<noteq> {})) \<and>
    (\<forall>members file k. \<exists>pre. standby_conninfo members file k =
      pre @ '' application_name='' @ ''node'' @ show_u64 k)"
proof -
  let ?vs = "cf_voters cfg" and ?i = "cf_node_id cfg" and ?name = "\<lambda>k :: u64. ''node'' @ show_u64 k"
  have d: "distinct ?vs" "?i \<in> set ?vs" and maj: "cf_majority cfg = majority ?vs"
    and target: "cf_sync_target cfg = sync_target ?i ?vs"
    using startup_facts [OF assms(1)] by simp_all
  let ?names = "sync_names ?i ?vs" and ?B = "{k \<in> set ?vs - {?i}. ?name k \<in> acks}"
  have inj: "inj_on ?name X" for X by (simp add: inj_on_def show_u64_def show_nat_inject word_unat_eq_iff)
  have names: "set ?names = ?name ` (set ?vs - {?i})" by (auto simp: sync_names_def)
  have "length ?names = card (set ?vs - {?i})"
    using d by (simp add: sync_names_def distinct_card [symmetric] set_diff_eq)
  then have len: "length ?names = length ?vs - 1" using d by (simp add: distinct_card)
  have plain: "list_all standby_name ?names" "distinct ?names"
    using show_nat_digits d(1) inj [of "set (filter (\<lambda>v. v \<noteq> ?i) ?vs)"]
    by (auto simp: sync_names_def standby_name_def list_all_iff show_u64_def distinct_map)
  have "set ?names \<inter> acks = ?name ` ?B" unfolding names by auto
  then have card: "card (set ?names \<inter> acks) = card ?B" by (simp only: card_image [OF inj])
  have "A = insert ?i ?B" using assms(3) by auto
  then have cardA: "card A = card ?B + 1" by simp
  have sem: "satisfied (cf_sync_target cfg) acks \<longleftrightarrow> cf_majority cfg \<le> card A"
  proof (cases "1 \<le> sync_quorum ?vs")
    case True
    have "sync_quorum ?vs \<le> length ?names" unfolding len by (simp add: sync_quorum_def majority_def)
    moreover have "cf_sync_target cfg = any_setting (sync_quorum ?vs) ?names"
      using True unfolding target by (simp add: sync_target_def any_setting_def)
    ultimately have "satisfied (cf_sync_target cfg) acks \<longleftrightarrow> sync_quorum ?vs \<le> card ?B"
      using assms(2) True plain card unfolding sync_semantics_def by auto
    then show ?thesis unfolding cardA maj sync_quorum_def by (auto simp: majority_def)
  next
    case False
    then have "satisfied (cf_sync_target cfg) acks"
      using assms(2) unfolding target sync_semantics_def by (simp add: sync_target_def)
    then show ?thesis using False unfolding cardA maj by (simp add: sync_quorum_def)
  qed
  have "M \<inter> A \<noteq> {}" if "cf_majority cfg \<le> card A" "M \<subseteq> set ?vs" "cf_majority cfg \<le> card M" for M
    using voters.meet [of ?vs M A] that d(2) maj assms(3) by auto
  then show ?thesis using sem by (auto simp: standby_conninfo_def Let_def)
qed

theorem sync_quorum_meets_every_majority_witness:
  "read_setting ''ANY 1 (node2, node3)'' {''node3''} \<and> \<not> read_setting ''ANY 1 (node2, node3)'' {''node1''}"
proof -
  have name: "show_u64 1 = ''1''" "show_u64 2 = ''2''" "show_u64 3 = ''3''"
    by code_simp+
  have "{1, 3} = insert (cf_node_id cfg_ex) {k \<in> set (cf_voters cfg_ex). ''node'' @ show_u64 k \<in> {''node3''}}"
    "{1} = insert (cf_node_id cfg_ex) {k \<in> set (cf_voters cfg_ex). ''node'' @ show_u64 k \<in> {''node1''}}"
    using name by (auto simp: cfg_ex_def)
  from sync_quorum_meets_every_majority [OF startup_ex read_setting this(1)]
    sync_quorum_meets_every_majority [OF startup_ex read_setting this(2)]
  show ?thesis by (simp add: cfg_ex_def)
qed

end
