(* ===== verification/Failover.thy ===== *)
theory Failover
  imports Prelude
begin

text \<open>
  \<open>src/failover.rs\<close>: the gossip message and its byte encoding, the \<open>Decision\<close> record
  carried by the Raft log, and the choice of the node to promote.
\<close>

section \<open>Gossip\<close>

record gossip =
  g_lsn :: u64
  g_in_recovery :: bool
  g_reconfirm :: bool
  g_seq :: u64

definition bool_u8 :: "bool \<Rightarrow> u8" where
  "bool_u8 b = (if b then 1 else 0)"

definition encode_gossip :: "u64 \<Rightarrow> bool \<Rightarrow> bool \<Rightarrow> u64 \<Rightarrow> bytes" where
  "encode_gossip lsn in_recovery reconfirm seq =
     to_be_u64 lsn @ [bool_u8 in_recovery] @ [bool_u8 reconfirm] @ to_be_u64 seq"

text \<open>\<open>bytes.get(10..18)\<close> is \<open>None\<close> unless all eight bytes are there.\<close>

definition get_range :: "bytes \<Rightarrow> nat \<Rightarrow> nat \<Rightarrow> bytes option" where
  "get_range bs i j = (if i \<le> j \<and> j \<le> length bs then Some (take (j - i) (drop i bs)) else None)"

definition get_byte :: "bytes \<Rightarrow> nat \<Rightarrow> u8 option" where
  "get_byte bs i = (if i < length bs then Some (bs ! i) else None)"

definition decode_gossip :: "bytes \<Rightarrow> gossip option" where
  "decode_gossip bs =
     (if length bs < 9 then None
      else let lsn = take 8 bs;
               seq = map_or 0 from_be_u64 (get_range bs 10 18)
           in Some \<lparr> g_lsn = from_be_u64 lsn,
                     g_in_recovery = bs ! 8 \<noteq> 0,
                     g_reconfirm = map_or False (\<lambda>b. b \<noteq> 0) (get_byte bs 9),
                     g_seq = seq \<rparr>)"

section \<open>Decision\<close>

record decision =
  dec_seq :: u64
  dec_primary :: u64

section \<open>Choosing the primary\<close>

text \<open>A candidate is \<open>(id, lsn, in_recovery)\<close>.\<close>

type_synonym candidate = "u64 \<times> u64 \<times> bool"

definition cmp_candidate :: "candidate \<Rightarrow> candidate \<Rightarrow> ordering" where
  "cmp_candidate a b =
     ordering_then
       (ordering_then (cmp (fst (snd a)) (fst (snd b)))
          (cmp (bool_u8 (\<not> snd (snd a))) (bool_u8 (\<not> snd (snd b)))))
       (cmp (fst b) (fst a))"

definition choose_primary :: "candidate list \<Rightarrow> u64 option" where
  "choose_primary candidates = map_option fst (max_by cmp_candidate candidates)"

text \<open>The key the comparator compares: LSN, then a node out of recovery, then the lower id.\<close>

definition candidate_key :: "candidate \<Rightarrow> u64 \<times> bool \<times> int" where
  "candidate_key c = (fst (snd c), \<not> snd (snd c), - uint (fst c))"

lemma bool_u8_simps [simp]:
  "bool_u8 a < bool_u8 b \<longleftrightarrow> \<not> a \<and> b" "bool_u8 a = bool_u8 b \<longleftrightarrow> a = b"
  "bool_u8 a = 0 \<longleftrightarrow> \<not> a"
  by (auto simp: bool_u8_def)

lemma uint_eq: "uint (a :: 'a::len word) = uint b \<longleftrightarrow> a = b"
  by (simp add: word_uint_eq_iff)

lemma uint_less: "uint (a :: 'a::len word) < uint b \<longleftrightarrow> a < b"
  by (simp add: word_less_def)

lemma uint_le: "uint (a :: 'a::len word) \<le> uint b \<longleftrightarrow> a \<le> b"
  by (simp add: word_le_def)

lemma cmp_greater: "cmp a b = Greater \<longleftrightarrow> b < a"
  and cmp_equal: "cmp a b = Equal \<longleftrightarrow> a = b"
  by (auto simp: cmp_def)

lemma then_greater:
  "ordering_then a b = Greater \<longleftrightarrow> a = Greater \<or> a = Equal \<and> b = Greater"
  and then_equal: "ordering_then a b = Equal \<longleftrightarrow> a = Equal \<and> b = Equal"
  by (cases a; simp)+

lemma less_triple:
  "((a, b, c) < (a', b', c')) \<longleftrightarrow> a < a' \<or> a = a' \<and> (b < b' \<or> b = b' \<and> c < c')"
  for a a' :: "'a::linorder" and b b' :: "'b::linorder" and c c' :: "'c::linorder"
  by (auto simp: less_prod_simp)

lemma le_triple:
  "((a, b, c) \<le> (a', b', c')) \<longleftrightarrow> a < a' \<or> a = a' \<and> (b < b' \<or> b = b' \<and> c \<le> c')"
  for a a' :: "'a::linorder" and b b' :: "'b::linorder" and c c' :: "'c::linorder"
  by (auto simp: less_eq_prod_simp)

lemma cmp_candidate_greater:
  "cmp_candidate x y = Greater \<longleftrightarrow> candidate_key y < candidate_key x"
  by (auto simp: cmp_candidate_def candidate_key_def then_greater then_equal cmp_greater cmp_equal
      less_triple uint_less)

interpretation cand: key_comparator cmp_candidate candidate_key
  by unfold_locales (rule cmp_candidate_greater)

lemma candidate_key_inj: "inj_on fst A \<Longrightarrow> inj_on candidate_key A"
  by (rule inj_onI) (auto simp: candidate_key_def uint_eq dest: inj_onD)

lemma choose_primary_Some:
  "choose_primary cs = Some p \<longleftrightarrow> (\<exists>c. max_by cmp_candidate cs = Some c \<and> fst c = p)"
  by (auto simp: choose_primary_def)

section \<open>Gossip as a codec\<close>

lemma length_encode_gossip [simp]: "length (encode_gossip l r c s) = 18"
  by (simp add: encode_gossip_def)

lemma decode_encode_gossip:
  "decode_gossip (encode_gossip l r c s) =
     Some \<lparr>g_lsn = l, g_in_recovery = r, g_reconfirm = c, g_seq = s\<rparr>"
proof -
  let ?b = "encode_gossip l r c s"
  have "take 8 ?b = to_be_u64 l" "?b ! 8 = bool_u8 r" "?b ! 9 = bool_u8 c"
    "take 8 (drop 10 ?b) = to_be_u64 s"
    by (simp_all add: encode_gossip_def nth_append)
  then show ?thesis
    by (simp add: decode_gossip_def Let_def get_range_def get_byte_def)
qed

interpretation gossip: codec
    "\<lambda>g. encode_gossip (g_lsn g) (g_in_recovery g) (g_reconfirm g) (g_seq g)"
    decode_gossip "\<lambda>_. True"
  by unfold_locales (simp add: decode_encode_gossip)

section \<open>Properties\<close>

text \<open>
  Every gossip message decodes to the four values it was encoded from, and two messages
  with the same bytes carry the same values.
\<close>

lemma gossip_round_trip:
  "decode_gossip (encode_gossip lsn in_recovery reconfirm sq) =
     Some \<lparr>g_lsn = lsn, g_in_recovery = in_recovery, g_reconfirm = reconfirm, g_seq = sq\<rparr> \<and>
   (encode_gossip lsn in_recovery reconfirm sq = encode_gossip lsn' in_recovery' reconfirm' sq' \<longleftrightarrow>
     lsn = lsn' \<and> in_recovery = in_recovery' \<and> reconfirm = reconfirm' \<and> sq = sq')"
  using gossip.enc_inject [of
      "\<lparr>g_lsn = lsn, g_in_recovery = in_recovery, g_reconfirm = reconfirm, g_seq = sq\<rparr>"
      "\<lparr>g_lsn = lsn', g_in_recovery = in_recovery', g_reconfirm = reconfirm', g_seq = sq'\<rparr>"]
  by (simp add: decode_encode_gossip)

text \<open>
  A gossip payload is rejected exactly when it is shorter than nine bytes; a payload that
  stops before the sequence number is read with sequence number 0, and one that stops before
  the reconfirm byte is read with the flag off.
\<close>

lemma decode_gossip_short_payloads:
  "(decode_gossip bs = None \<longleftrightarrow> length bs < 9) \<and>
   (\<forall>g. decode_gossip bs = Some g \<longrightarrow>
      g_lsn g = from_be_u64 (take 8 bs) \<and> (g_in_recovery g \<longleftrightarrow> bs ! 8 \<noteq> 0) \<and>
      (length bs < 18 \<longrightarrow> g_seq g = 0) \<and> (length bs = 9 \<longrightarrow> \<not> g_reconfirm g))"
  by (auto simp: decode_gossip_def Let_def get_range_def get_byte_def)

lemma decode_gossip_short_payloads_witness:
  "decode_gossip (replicate 9 1) = Some \<lparr>g_lsn = from_be_u64 (replicate 8 1),
     g_in_recovery = True, g_reconfirm = False, g_seq = 0\<rparr>"
proof -
  have "decode_gossip (replicate 9 1) \<noteq> None"
    using decode_gossip_short_payloads [of "replicate 9 1"] by simp
  then obtain g where g: "decode_gossip (replicate 9 1) = Some g" by blast
  with decode_gossip_short_payloads [of "replicate 9 1"]
  have "g_lsn g = from_be_u64 (replicate 8 1)" "g_in_recovery g" "g_seq g = 0" "\<not> g_reconfirm g"
    by auto
  with g show ?thesis by (cases g) simp
qed

text \<open>
  C11: The node chosen for promotion is a candidate, no candidate has a higher LSN, among equal
  LSNs a node already out of recovery wins, and among those the lowest id.
\<close>

theorem choose_primary_most_advanced:
  assumes "choose_primary cs = Some p"
  shows "\<exists>lsn rec. (p, lsn, rec) \<in> set cs \<and>
     (\<forall>(i, l, r) \<in> set cs. l < lsn \<or> l = lsn \<and> (r \<and> \<not> rec \<or> r = rec \<and> p \<le> i))"
proof -
  obtain c where c: "max_by cmp_candidate cs = Some c" "fst c = p"
    using assms by (auto simp: choose_primary_Some)
  obtain lsn rec where eq: "c = (p, lsn, rec)" using c(2) by (cases c) auto
  have "l < lsn \<or> l = lsn \<and> (r \<and> \<not> rec \<or> r = rec \<and> p \<le> i)" if "(i, l, r) \<in> set cs" for i l r
    using cand.max_by_ge [OF c(1) that] eq
    by (auto simp: candidate_key_def le_triple uint_le)
  then show ?thesis using cand.max_by_in [OF c(1)] eq by blast
qed

abbreviation candidates3 :: "candidate list" where
  "candidates3 \<equiv> [(1, 10, False), (3, 20, True), (2, 20, True)]"

theorem choose_primary_most_advanced_witness:
  "\<exists>lsn rec. (2, lsn, rec) \<in> set candidates3 \<and>
     (\<forall>(i, l, r) \<in> set candidates3.
        l < lsn \<or> l = lsn \<and> (r \<and> \<not> rec \<or> r = rec \<and> 2 \<le> i))"
proof (rule choose_primary_most_advanced)
  show "choose_primary candidates3 = Some 2"
    by (simp add: choose_primary_def max_by_def cmp_candidate_def cmp_def ordering_then_def)
qed

text \<open>
  When the candidates' ids are distinct, the choice depends on the set of candidates only:
  the iteration order of the hash map they were collected from does not matter.
\<close>

lemma choose_primary_order_independent:
  assumes "distinct (map fst cs)" "set cs = set ds"
  shows "choose_primary cs = choose_primary ds"
proof -
  have "inj_on candidate_key (set cs)"
    using assms(1) by (intro candidate_key_inj) (simp add: distinct_map)
  from cand.max_by_set_eq [OF this assms(2)] show ?thesis by (simp add: choose_primary_def)
qed

lemma choose_primary_order_independent_witness:
  "choose_primary [(1, 7, True), (2, 7, True)] = choose_primary [(2, 7, True), (1, 7, True)]"
proof (rule choose_primary_order_independent)
  show "distinct (map fst [(1, 7, True), (2, 7, True)] :: u64 list)" by simp
  show "set [(1, 7, True), (2, 7, True)] = set [(2, 7, True), (1, 7, True)]" 
    by (simp only: list.set) (rule insert_commute)
qed

end
