(* ===== verification/Files.thy ===== *)
theory Files
  imports Addresses
begin

text \<open>
  Files and crashes. A file system maps names to files; a crash may roll a name back to any
  entry its directory has held since the directory was last synced, and a file whose data was
  not synced may come back with any content. On it: \<open>atomic_write\<close> and \<open>load\<close> of
  \<open>src/store.rs\<close>, \<open>src/state.rs\<close>, and \<open>write_heartbeat\<close> of \<open>src/apply.rs\<close>.
  The interface \<open>atomic_file\<close> is what the Raft storage needs of a file.
\<close>

section \<open>The file system\<close>

record inode =
  content :: bytes
  synced :: bool

record fs =
  dir :: "string \<rightharpoonup> inode"
  olds :: "string \<Rightarrow> inode option list"

datatype fs_op =
    Create string
  | WriteAll string bytes
  | SyncAll string
  | Rename string string
  | OpenDir string
  | SyncDir string

text \<open>\<open>Path::parent\<close>; empty when the path has no directory part.\<close>

definition parent_path :: "string \<Rightarrow> string" where
  "parent_path p = (case rsplit_once CHR ''/'' p of None \<Rightarrow> []
     | Some (d, _) \<Rightarrow> if d = [] then ''/'' else d)"

text \<open>Replacing the entry of a name keeps the old entry as a possible outcome of a crash.\<close>

definition set_entry :: "string \<Rightarrow> inode option \<Rightarrow> fs \<Rightarrow> fs" where
  "set_entry p e s = s\<lparr>dir := (dir s)(p := e), olds := (olds s)(p := dir s p # olds s p)\<rparr>"

definition map_file :: "string \<Rightarrow> (inode \<Rightarrow> inode) \<Rightarrow> fs \<Rightarrow> fs" where
  "map_file p f s = s\<lparr>dir := (dir s)(p := map_option f (dir s p))\<rparr>"

fun fs_exec :: "fs_op \<Rightarrow> fs \<Rightarrow> fs" where
  "fs_exec (Create p) s = set_entry p (Some \<lparr>content = [], synced = False\<rparr>) s"
| "fs_exec (WriteAll p bs) s =
     map_file p (\<lambda>f. f\<lparr>content := content f @ bs, synced := False\<rparr>) s"
| "fs_exec (SyncAll p) s = map_file p (\<lambda>f. f\<lparr>synced := True\<rparr>) s"
| "fs_exec (Rename p q) s = set_entry p None (set_entry q (dir s p) s)"
| "fs_exec (OpenDir d) s = s"
| "fs_exec (SyncDir d) s = s\<lparr>olds := (\<lambda>p. if parent_path p = d then [] else olds s p)\<rparr>"

text \<open>A failed operation has no effect, except that a write may have written a prefix.\<close>

fun fs_fail :: "nat \<Rightarrow> fs_op \<Rightarrow> fs \<Rightarrow> fs" where
  "fs_fail k (WriteAll p bs) s = fs_exec (WriteAll p (take k bs)) s"
| "fs_fail k _ s = s"

text \<open>
  Running operations up to the first failure (\<open>fault op = Some k\<close> makes \<open>op\<close> fail, a write
  after \<open>k\<close> bytes), with every state passed through: the process may be killed, or the
  machine may lose power, in any of them.
\<close>

fun run_ops :: "(fs_op \<Rightarrow> nat option) \<Rightarrow> fs_op list \<Rightarrow> fs \<Rightarrow> bool \<times> fs list" where
  "run_ops fault [] s = (True, [s])"
| "run_ops fault (x # xs) s =
     (case fault x of
        Some k \<Rightarrow> (False, [s, fs_fail k x s])
      | None \<Rightarrow> (let (good, states) = run_ops fault xs (fs_exec x s) in (good, s # states)))"

section \<open>What a crash leaves\<close>

definition entries :: "fs \<Rightarrow> string \<Rightarrow> inode option list" where
  "entries s p = dir s p # olds s p"

definition all_synced :: "fs \<Rightarrow> string \<Rightarrow> bool" where
  "all_synced s p = list_all (\<lambda>e. case e of None \<Rightarrow> True | Some f \<Rightarrow> synced f) (entries s p)"

definition possible :: "fs \<Rightarrow> string \<Rightarrow> bytes option set" where
  "possible s p = set (map (map_option content) (entries s p))"

text \<open>
  The content of a name after a crash, and a file system that a machine may restart with.
\<close>

definition crash_may :: "fs \<Rightarrow> string \<Rightarrow> bytes option \<Rightarrow> bool" where
  "crash_may s p c \<longleftrightarrow> (\<exists>e \<in> set (entries s p). case e of
     None \<Rightarrow> c = None | Some f \<Rightarrow> if synced f then c = Some (content f) else c \<noteq> None)"

definition crashes :: "fs \<Rightarrow> fs \<Rightarrow> bool" where
  "crashes s t \<longleftrightarrow> (\<forall>p. olds t p = [] \<and> crash_may s p (map_option content (dir t p)) \<and>
     (case dir t p of None \<Rightarrow> True | Some f \<Rightarrow> synced f))"

lemma crash_may_possible: "all_synced s p \<Longrightarrow> crash_may s p c \<Longrightarrow> c \<in> possible s p"
  by (force simp: all_synced_def crash_may_def possible_def list_all_iff split: option.splits)

lemma current_possible: "map_option content (dir s p) \<in> possible s p"
  by (simp add: possible_def entries_def)

section \<open>Atomic replacement\<close>

text \<open>\<open>path.with_extension("tmp")\<close>.\<close>

definition with_extension_tmp :: "string \<Rightarrow> string" where
  "with_extension_tmp p =
     (let (d, name) = (case rsplit_once CHR ''/'' p of None \<Rightarrow> ([], p)
                       | Some (d, nm) \<Rightarrow> (d @ ''/'', nm));
          stem = (case rsplit_once CHR ''.'' name of None \<Rightarrow> name
                  | Some (st, _) \<Rightarrow> if st = [] then name else st)
      in d @ stem @ ''.tmp'')"

definition atomic_write_ops :: "string \<Rightarrow> bytes \<Rightarrow> fs_op list" where
  "atomic_write_ops path bs =
     (let tmp = with_extension_tmp path; d = parent_path path
      in [Create tmp, WriteAll tmp bs, SyncAll tmp, Rename tmp path]
         @ (if d \<noteq> [] then [OpenDir d, SyncDir d] else []))"

definition atomic_write :: "(fs_op \<Rightarrow> nat option) \<Rightarrow> string \<Rightarrow> bytes \<Rightarrow> fs \<Rightarrow> bool \<times> fs list" where
  "atomic_write fault path bs s = run_ops fault (atomic_write_ops path bs) s"

text \<open>A target in a named directory, with a temporary name of its own.\<close>

definition target_ok :: "string \<Rightarrow> bool" where
  "target_ok path \<longleftrightarrow> with_extension_tmp path \<noteq> path \<and> parent_path path \<noteq> []"

locale atomic_file =
  fixes wr :: "bytes \<Rightarrow> 'fs \<Rightarrow> bool \<times> 'fs list" and may :: "'fs \<Rightarrow> bytes option set"
    and good :: "'fs \<Rightarrow> bool"
  assumes wr_during: "good s \<Longrightarrow> t \<in> set (snd (wr bs s)) \<Longrightarrow>
      good t \<and> may t \<subseteq> insert (Some bs) (may s)"
    and wr_done: "good s \<Longrightarrow> fst (wr bs s) \<Longrightarrow> may (last (snd (wr bs s))) = {Some bs}"
    and wr_trace: "snd (wr bs s) \<noteq> []"
begin

lemma wr_last: "good s \<Longrightarrow> good (last (snd (wr bs s)))"
  using wr_during [of s "last (snd (wr bs s))" bs] wr_trace [of bs s] by simp

lemma wr_last_may: "good s \<Longrightarrow> may (last (snd (wr bs s))) \<subseteq> insert (Some bs) (may s)"
  using wr_during [of s "last (snd (wr bs s))" bs] wr_trace [of bs s] by simp

text \<open>A sequence of writes, some of which may fail.\<close>

definition wr_list :: "bytes list \<Rightarrow> 'fs \<Rightarrow> 'fs" where
  "wr_list bss s = foldl (\<lambda>t bs. last (snd (wr bs t))) s bss"

lemma wr_list_may: "good s \<Longrightarrow> good (wr_list bss s) \<and> may (wr_list bss s) \<subseteq> Some ` set bss \<union> may s"
proof (induction bss arbitrary: s)
  case (Cons bs bss)
  have "good (last (snd (wr bs s)))" by (rule wr_last [OF Cons.prems])
  from Cons.IH [OF this] wr_last_may [OF Cons.prems, of bs] show ?case
    by (auto simp: wr_list_def)
qed (simp add: wr_list_def)

end

lemma run_ops_nonempty: "snd (run_ops fault xs s) \<noteq> []"
  by (cases xs) (auto split: option.split prod.split)

lemma target_names:
  "target_ok path \<Longrightarrow> with_extension_tmp path \<noteq> path"
  by (simp add: target_ok_def)

text \<open>Until the rename, nothing about the target changes.\<close>

lemma entries_other:
  "p \<noteq> q \<Longrightarrow> entries (fs_exec (Create q) s) p = entries s p"
  "p \<noteq> q \<Longrightarrow> entries (fs_exec (WriteAll q bs) s) p = entries s p"
  "p \<noteq> q \<Longrightarrow> entries (fs_exec (SyncAll q) s) p = entries s p"
  by (simp_all add: entries_def set_entry_def map_file_def)

lemma renamed_entries:
  "p \<noteq> q \<Longrightarrow>
     entries (fs_exec (Rename q p) (fs_exec (SyncAll q) (fs_exec (WriteAll q bs) (fs_exec (Create q) s)))) p =
     Some \<lparr>content = bs, synced = True\<rparr> # entries s p"
  by (simp add: entries_def set_entry_def map_file_def)

lemma synced_dir_entries:
  "parent_path p = d \<Longrightarrow> entries (fs_exec (SyncDir d) s) p = [dir s p]"
  by (simp add: entries_def)

lemma renamed_dir:
  "p \<noteq> q \<Longrightarrow>
     dir (fs_exec (Rename q p) (fs_exec (SyncAll q) (fs_exec (WriteAll q bs) (fs_exec (Create q) s)))) p =
     Some \<lparr>content = bs, synced = True\<rparr>"
  by (simp add: set_entry_def map_file_def)

lemmas write_steps = entries_other renamed_entries renamed_dir synced_dir_entries

lemma atomic_write_trace:
  assumes "target_ok path" "t \<in> set (snd (atomic_write fault path bs s))"
  shows "entries t path \<in> {entries s path, Some \<lparr>content = bs, synced = True\<rparr> # entries s path,
    [Some \<lparr>content = bs, synced = True\<rparr>]}"
  using assms target_names [OF assms(1)]
  by (auto simp del: fs_exec.simps split: option.splits simp: atomic_write_def
      atomic_write_ops_def Let_def write_steps target_ok_def fs_exec.simps(5))

lemma atomic_write_done:
  assumes "target_ok path" "fst (atomic_write fault path bs s)"
  shows "entries (last (snd (atomic_write fault path bs s))) path =
    [Some \<lparr>content = bs, synced = True\<rparr>]"
  using assms target_names [OF assms(1)]
  by (auto simp del: fs_exec.simps split: option.splits simp: atomic_write_def
      atomic_write_ops_def Let_def write_steps target_ok_def fs_exec.simps(5))

interpretation af: atomic_file "\<lambda>bs s. atomic_write fault path bs s" "\<lambda>s. possible s path"
    "\<lambda>s. target_ok path \<and> all_synced s path"
  for fault path
proof unfold_locales
  fix s t bs
  assume g: "target_ok path \<and> all_synced s path" and t: "t \<in> set (snd (atomic_write fault path bs s))"
  show "(target_ok path \<and> all_synced t path) \<and> possible t path \<subseteq> insert (Some bs) (possible s path)"
    using atomic_write_trace [of path t fault bs s] g t
    by (auto simp: all_synced_def possible_def)
next
  fix s bs
  assume "target_ok path \<and> all_synced s path" "fst (atomic_write fault path bs s)"
  then show "possible (last (snd (atomic_write fault path bs s))) path = {Some bs}"
    using atomic_write_done [of path fault bs s] by (simp add: possible_def)
next
  fix s bs
  show "snd (atomic_write fault path bs s) \<noteq> []"
    by (simp add: atomic_write_def run_ops_nonempty)
qed

section \<open>Loading a durable file\<close>

datatype 't loaded = Loaded 't | Panic

datatype read_outcome = ReadOk bytes | NotFound | ReadError

text \<open>\<open>readable\<close> is whether the operating system lets the process read an existing file.\<close>

definition fs_read :: "bool \<Rightarrow> fs \<Rightarrow> string \<Rightarrow> read_outcome" where
  "fs_read readable s p =
     (case dir s p of None \<Rightarrow> NotFound
      | Some f \<Rightarrow> if readable then ReadOk (content f) else ReadError)"

definition load :: "(bytes \<Rightarrow> 't option) \<Rightarrow> 't \<Rightarrow> read_outcome \<Rightarrow> 't loaded" where
  "load de dflt r =
     (case r of
        ReadOk bs \<Rightarrow> (case de bs of Some t \<Rightarrow> Loaded t | None \<Rightarrow> Panic)
      | NotFound \<Rightarrow> Loaded dflt
      | ReadError \<Rightarrow> Panic)"

section \<open>Text and UTF-8\<close>

text \<open>
  What \<open>read_to_string\<close> returns is any Unicode text, a list of scalar values. The strings the
  program itself makes are texts of code points below 256.
\<close>

type_synonym unicode = "nat list"

definition scalar :: "nat \<Rightarrow> bool" where
  "scalar k \<longleftrightarrow> k < 55296 \<or> (57344 \<le> k \<and> k < 1114112)"

definition points :: "string \<Rightarrow> unicode" where
  "points s = map of_char s"

definition utf8_point :: "nat \<Rightarrow> bytes" where
  "utf8_point k = map word_of_nat
     (if k < 128 then [k]
      else if k < 2048 then [192 + k div 64, 128 + k mod 64]
      else if k < 65536 then [224 + k div 4096, 128 + k div 64 mod 64, 128 + k mod 64]
      else [240 + k div 262144, 128 + k div 4096 mod 64, 128 + k div 64 mod 64, 128 + k mod 64])"

definition utf8_encode :: "unicode \<Rightarrow> bytes" where
  "utf8_encode s = concat (map utf8_point s)"

definition continuation :: "u8 \<Rightarrow> bool" where
  "continuation b \<longleftrightarrow> 128 \<le> unat b \<and> unat b < 192"

text \<open>Overlong forms, surrogates, values above the Unicode range and cut sequences are refused.\<close>

fun utf8_decode :: "bytes \<Rightarrow> unicode option" where
  "utf8_decode [] = Some []"
| "utf8_decode (b # bs) =
     (if unat b < 128 then map_option (Cons (unat b)) (utf8_decode bs)
      else if unat b < 192 then None
      else if unat b < 224 then
        (case bs of
           c1 # cs \<Rightarrow>
             if continuation c1 \<and> 128 \<le> (unat b - 192) * 64 + (unat c1 - 128)
             then map_option (Cons ((unat b - 192) * 64 + (unat c1 - 128))) (utf8_decode cs) else None
         | _ \<Rightarrow> None)
      else if unat b < 240 then
        (case bs of
           c1 # c2 # cs \<Rightarrow>
             (let k = (unat b - 224) * 4096 + (unat c1 - 128) * 64 + (unat c2 - 128)
              in if continuation c1 \<and> continuation c2 \<and> 2048 \<le> k \<and> scalar k
                 then map_option (Cons k) (utf8_decode cs) else None)
         | _ \<Rightarrow> None)
      else
        (case bs of
           c1 # c2 # c3 # cs \<Rightarrow>
             (let k = (unat b - 240) * 262144 + (unat c1 - 128) * 4096 + (unat c2 - 128) * 64 + (unat c3 - 128)
              in if continuation c1 \<and> continuation c2 \<and> continuation c3 \<and> 65536 \<le> k \<and> scalar k
                 then map_option (Cons k) (utf8_decode cs) else None)
         | _ \<Rightarrow> None))"

lemma byte_of_nat: "x < 256 \<Longrightarrow> unat (word_of_nat x :: u8) = x"
  by (simp add: unat_of_nat)

lemma continuation_of_nat:
  "unat (word_of_nat (128 + x mod 64) :: u8) = 128 + x mod 64" "continuation (word_of_nat (128 + x mod 64))"
proof -
  have "x mod 64 < 64" by simp
  then show eq: "unat (word_of_nat (128 + x mod 64) :: u8) = 128 + x mod 64" by (intro byte_of_nat) linarith
  show "continuation (word_of_nat (128 + x mod 64))"
    using \<open>x mod 64 < 64\<close> unfolding continuation_def eq by linarith
qed

lemma digits64:
  fixes k :: nat
  shows "k div 64 * 64 + k mod 64 = k"
    "k div 4096 * 4096 + k div 64 mod 64 * 64 + k mod 64 = k"
    "k div 262144 * 262144 + k div 4096 mod 64 * 4096 + k div 64 mod 64 * 64 + k mod 64 = k"
proof -
  show "k div 64 * 64 + k mod 64 = k" by simp
  have a: "k div 64 div 64 = k div 4096" and b: "k div 4096 div 64 = k div 262144"
    by (simp_all add: div_mult2_eq [symmetric])
  have c: "k div 64 = k div 4096 * 64 + k div 64 mod 64" and d: "k div 4096 = k div 262144 * 64 + k div 4096 mod 64"
    using div_mult_mod_eq [of "k div 64" 64] div_mult_mod_eq [of "k div 4096" 64] unfolding a b by simp_all
  show e: "k div 4096 * 4096 + k div 64 mod 64 * 64 + k mod 64 = k"
    using c div_mult_mod_eq [of k 64] by linarith
  show "k div 262144 * 262144 + k div 4096 mod 64 * 4096 + k div 64 mod 64 * 64 + k mod 64 = k"
    using d e by linarith
qed

lemma utf8_decode_point: "scalar k \<Longrightarrow> utf8_decode (utf8_point k @ bs) = map_option (Cons k) (utf8_decode bs)"
proof -
  assume s: "scalar k"
  then have max: "k < 1114112" by (auto simp: scalar_def)
  consider (one) "k < 128" | (two) "128 \<le> k" "k < 2048" | (three) "2048 \<le> k" "k < 65536" | (four) "65536 \<le> k"
    by linarith
  then show ?thesis
  proof cases
    case one
    then show ?thesis by (simp add: utf8_point_def byte_of_nat)
  next
    case two
    then have "unat (word_of_nat (192 + k div 64) :: u8) = 192 + k div 64" "k div 64 < 32"
      by (intro byte_of_nat, linarith, linarith)
    then show ?thesis using two
      by (simp add: utf8_point_def continuation_of_nat digits64 del: of_nat_add)
  next
    case three
    then have "unat (word_of_nat (224 + k div 4096) :: u8) = 224 + k div 4096" "k div 4096 < 16"
      by (intro byte_of_nat, linarith, linarith)
    then show ?thesis using three s
      by (simp add: utf8_point_def continuation_of_nat digits64 Let_def del: of_nat_add)
  next
    case four
    then have "unat (word_of_nat (240 + k div 262144) :: u8) = 240 + k div 262144" "k div 262144 < 8"
      using max by (intro byte_of_nat, linarith, linarith)
    then show ?thesis using four s
      by (simp add: utf8_point_def continuation_of_nat digits64 Let_def del: of_nat_add)
  qed
qed

interpretation utf8: codec utf8_encode utf8_decode "list_all scalar"
proof unfold_locales
  fix s :: unicode
  show "list_all scalar s \<Longrightarrow> utf8_decode (utf8_encode s) = Some s"
    by (induction s) (simp_all add: utf8_encode_def utf8_decode_point)
qed

lemma char_point: "of_char c < (256 :: nat)"
  by simp

lemma points_scalar: "list_all scalar (points s)"
proof -
  have "scalar (of_char c)" for c :: char
    using char_point [of c] by (simp only: scalar_def) linarith
  then show ?thesis by (simp add: points_def list_all_iff)
qed

text \<open>\<open>char::is_whitespace\<close> and \<open>str::trim\<close> on any text.\<close>

definition white_point :: "nat \<Rightarrow> bool" where
  "white_point k \<longleftrightarrow> (9 \<le> k \<and> k \<le> 13) \<or> k = 32 \<or> k = 133 \<or> k = 160 \<or> k = 5760 \<or> (8192 \<le> k \<and> k \<le> 8202) \<or>
     k = 8232 \<or> k = 8233 \<or> k = 8239 \<or> k = 8287 \<or> k = 12288"

definition trim_points :: "unicode \<Rightarrow> unicode" where
  "trim_points s = rev (dropWhile white_point (rev (dropWhile white_point s)))"

lemma trim_points: "trim_points (points s) = points (trim s)"
proof -
  have "white_point (of_char c) = is_whitespace c" for c :: char
    using char_point [of c] unfolding white_point_def is_whitespace_def Let_def by linarith
  then have "white_point \<circ> of_char = is_whitespace" by (simp add: fun_eq_iff)
  then show ?thesis by (simp add: trim_points_def points_def trim_def dropWhile_map rev_map)
qed

section \<open>The status file and the heartbeat file\<close>

text \<open>Both are written beside their target and renamed over it, without syncing.\<close>

definition publish_ops :: "string \<Rightarrow> bytes \<Rightarrow> fs_op list" where
  "publish_ops target bs =
     (let tmp = target @ ''.tmp'' in [Create tmp, WriteAll tmp bs, Rename tmp target])"

definition state_path :: "string \<Rightarrow> u64 \<Rightarrow> string" where
  "state_path raft_dir node_id = raft_dir @ ''/pg_replica_'' @ show_u64 node_id @ ''.state''"

definition state_write ::
    "(fs_op \<Rightarrow> nat option) \<Rightarrow> string \<Rightarrow> u64 \<Rightarrow> string \<Rightarrow> fs \<Rightarrow> bool \<times> fs list" where
  "state_write fault raft_dir node_id line s =
     run_ops fault (publish_ops (state_path raft_dir node_id) (utf8_encode (points line))) s"

definition state_read :: "bool \<Rightarrow> string \<Rightarrow> u64 \<Rightarrow> fs \<Rightarrow> unicode option" where
  "state_read readable raft_dir node_id s =
     (case fs_read readable s (state_path raft_dir node_id) of
        ReadOk bs \<Rightarrow> map_option trim_points (utf8_decode bs)
      | NotFound \<Rightarrow> None
      | ReadError \<Rightarrow> None)"

text \<open>\<open>millis\<close> is the wall clock since the epoch, 0 when the clock is before it.\<close>

definition write_heartbeat ::
    "(fs_op \<Rightarrow> nat option) \<Rightarrow> string \<Rightarrow> nat option \<Rightarrow> fs \<Rightarrow> bool \<times> fs list" where
  "write_heartbeat fault path elapsed s =
     run_ops fault (publish_ops path (utf8_encode (points (show_nat (unwrap_or 0 elapsed))))) s"

lemma publish_trace:
  assumes "t \<in> set (snd (run_ops fault (publish_ops target bs) s))"
  shows "dir t target = dir s target \<or> map_option content (dir t target) = Some bs"
  using assms
  by (auto simp: publish_ops_def Let_def set_entry_def map_file_def split: option.splits)

lemma publish_done:
  assumes "fst (run_ops fault (publish_ops target bs) s)"
  shows "map_option content (dir (last (snd (run_ops fault (publish_ops target bs) s))) target) = Some bs"
  using assms
  by (auto simp: publish_ops_def Let_def set_entry_def map_file_def split: option.splits)

section \<open>Properties\<close>

text \<open>
  C16: \<open>atomic_write\<close> replaces a file atomically: whatever operation fails, and wherever the
  write is cut short, both a reader and a machine restarted after a power loss find a content
  that was possible before or the complete new one, never a part of it.
\<close>

theorem atomic_write_is_atomic:
  assumes "target_ok path" "all_synced s path" "t \<in> set (snd (atomic_write fault path bs s))"
  shows "map_option content (dir t path) \<in> insert (Some bs) (possible s path) \<and>
    Collect (crash_may t path) \<subseteq> insert (Some bs) (possible s path)"
  using af.wr_during [of path s t fault bs] assms current_possible [of t path]
    crash_may_possible [of t path] by blast

text \<open>A write whose sync of the temporary file fails, over an older content.\<close>

definition disk_example :: fs where
  "disk_example = \<lparr>dir = [''d/s.json'' \<mapsto> \<lparr>content = [7], synced = True\<rparr>], olds = \<lambda>_. []\<rparr>"

lemma disk_example_ok: "target_ok ''d/s.json''" "all_synced disk_example ''d/s.json''"
  by (code_simp, simp add: all_synced_def entries_def disk_example_def)

theorem atomic_write_is_atomic_witness:
  "let t = last (snd (atomic_write (\<lambda>x. if x = SyncAll ''d/s.tmp'' then Some 0 else None)
         ''d/s.json'' [1] disk_example))
   in map_option content (dir t ''d/s.json'') \<in> insert (Some [1]) (possible disk_example ''d/s.json'') \<and>
      Collect (crash_may t ''d/s.json'') \<subseteq> insert (Some [1]) (possible disk_example ''d/s.json'')"
  unfolding Let_def
  by (rule atomic_write_is_atomic [OF disk_example_ok])
    (rule last_in_set, simp add: atomic_write_def run_ops_nonempty)

text \<open>
  C27: Once \<open>atomic_write\<close> has returned success, a power loss leaves exactly the new content.
\<close>

theorem atomic_write_is_durable:
  assumes "target_ok path" "fst (atomic_write fault path bs s)"
  shows "crash_may (last (snd (atomic_write fault path bs s))) path c \<longleftrightarrow> c = Some bs"
  using atomic_write_done [OF assms] by (simp add: crash_may_def)

theorem atomic_write_is_durable_witness:
  "crash_may (last (snd (atomic_write (\<lambda>_. None) ''d/s.json'' [1] disk_example))) ''d/s.json'' (Some [1])"
proof -
  have "fst (atomic_write (\<lambda>_. None) ''d/s.json'' [1] disk_example)"
    by (simp add: atomic_write_def atomic_write_ops_def Let_def)
  from atomic_write_is_durable [OF disk_example_ok(1) this] show ?thesis by blast
qed

text \<open>
  Loading starts from the default state only when the file does not exist; a file that cannot
  be read or decoded stops the process instead of being taken for an empty one.
\<close>

lemma load_refuses_damaged_state:
  "load de dflt (fs_read readable s p) =
     (case dir s p of
        None \<Rightarrow> Loaded dflt
      | Some f \<Rightarrow> if readable \<and> de (content f) \<noteq> None then Loaded (the (de (content f))) else Panic)"
  by (auto simp: load_def fs_read_def split: option.splits)

text \<open>
  The status line: a reader at any moment of a write sees the old line or the new one in
  full, and after a write that succeeded it reads the new line back, trimmed.
\<close>

lemma status_line_is_replaced_whole:
  assumes "t \<in> set (snd (state_write fault raft_dir node_id line s))"
  shows "(state_read True raft_dir node_id t = state_read True raft_dir node_id s \<or>
      state_read True raft_dir node_id t = Some (points (trim line))) \<and>
    (fst (state_write fault raft_dir node_id line s) \<longrightarrow>
      state_read True raft_dir node_id (last (snd (state_write fault raft_dir node_id line s))) =
        Some (points (trim line)))"
proof -
  have read: "state_read True raft_dir node_id u =
      Option.bind (map_option content (dir u (state_path raft_dir node_id)))
        (\<lambda>bs. map_option trim_points (utf8_decode bs))" for u
    by (simp add: state_read_def fs_read_def split: option.split)
  show ?thesis
    using publish_trace [OF assms [unfolded state_write_def]]
      publish_done [of fault "state_path raft_dir node_id" "utf8_encode (points line)" s]
    by (auto simp: read utf8.dec_enc points_scalar trim_points state_write_def)
qed

lemma status_line_is_replaced_whole_witness:
  "state_read True ''d'' 1
     (last (snd (state_write (\<lambda>_. None) ''d'' 1 ''role=leader'' disk_example))) = Some (points ''role=leader'')"
proof -
  let ?w = "state_write (\<lambda>_. None) ''d'' 1 ''role=leader'' disk_example"
  have "last (snd ?w) \<in> set (snd ?w)"
    by (rule last_in_set) (simp add: state_write_def run_ops_nonempty)
  moreover have "fst ?w" by (simp add: state_write_def publish_ops_def Let_def)
  moreover have "trim ''role=leader'' = ''role=leader''" by code_simp
  ultimately show ?thesis
    using status_line_is_replaced_whole [of "last (snd ?w)" "\<lambda>_. None" "''d''" 1 "''role=leader''" disk_example]
    by simp
qed

end
