(* ===== verification/Supervisor.thy ===== *)
theory Supervisor
  imports Startup Failover Files
begin

text \<open>
  The loop of \<open>pg_replica_supervisor_main\<close> in \<open>src/lib.rs\<close>: its variables as a record, one
  definition per phase of an iteration, and \<open>tick\<close>, which composes them in the order of the
  code. What an iteration reads from outside (clocks, gossip, Raft metrics, the recovery flag,
  probes, the marker file) is the record \<open>tick_in\<close>; running psql is the parameter \<open>os\<close>. Every
  effect is an event, in the order in which it happens.
\<close>

section \<open>SQL and events\<close>

datatype sql =
    AlterReadOnly bool
  | AlterSync string
  | AlterConninfo string
  | ReloadConf
  | Promote
  | CreateSlot u64
  | ShowDataDirectory

definition slot_name :: "u64 \<Rightarrow> string" where
  "slot_name i = ''node'' @ show_u64 i"

fun sql_text :: "sql \<Rightarrow> string" where
  "sql_text (AlterReadOnly b) =
     ''ALTER SYSTEM SET default_transaction_read_only = '' @ (if b then ''on'' else ''off'')"
| "sql_text (AlterSync names) = ''ALTER SYSTEM SET synchronous_standby_names = '' @ quoted names"
| "sql_text (AlterConninfo conninfo) = ''ALTER SYSTEM SET primary_conninfo = '' @ quoted conninfo"
| "sql_text ReloadConf = ''SELECT pg_reload_conf()''"
| "sql_text Promote = ''SELECT pg_promote(false)''"
| "sql_text (CreateSlot i) =
     ''SELECT pg_create_physical_replication_slot('' @ quoted (slot_name i)
       @ '', true) WHERE NOT EXISTS (SELECT 1 FROM pg_replication_slots WHERE slot_name = ''
       @ quoted (slot_name i) @ '')''"
| "sql_text ShowDataDirectory = ''SHOW data_directory''"

text \<open>\<open>Sql q b\<close>: statement \<open>q\<close> was run and \<open>b\<close> says whether it was reported as successful.\<close>

datatype event =
    Sql sql bool
  | Heartbeat
  | SpawnWatchdog command
  | GossipOut u64 bytes
  | WriteMarker string
  | Propose decision
  | SpawnRejoin command
  | StatusLine string
  | RaftBootstrap "(u64, string) btree"
  | RaftShutdown

record 'w io =
  io_world :: 'w
  io_events :: "event list"

type_synonym 'w os = "command \<Rightarrow> 'w \<Rightarrow> proc_output option \<times> 'w"

definition emit :: "event \<Rightarrow> 'w io \<Rightarrow> 'w io" where
  "emit e io = io\<lparr>io_events := io_events io @ [e]\<rparr>"

definition run_sql :: "'w os \<Rightarrow> sup_cfg \<Rightarrow> sql \<Rightarrow> 'w io \<Rightarrow> (string, string) result \<times> 'w io" where
  "run_sql os cfg q io =
     (let (out, w) = os (sql_command (cf_target cfg) (sql_text q)) (io_world io); r = sql_result out
      in (r, emit (Sql q (is_ok r)) (io\<lparr>io_world := w\<rparr>)))"

definition apply_setting :: "'w os \<Rightarrow> sup_cfg \<Rightarrow> sql \<Rightarrow> 'w io \<Rightarrow> bool \<times> 'w io" where
  "apply_setting os cfg q io =
     (let (r, io1) = run_sql os cfg q io
      in if is_ok r then (let (r2, io2) = run_sql os cfg ReloadConf io1 in (is_ok r2, io2))
         else (False, io1))"

section \<open>State\<close>

record sup =
  sp_last :: string
  sp_peers_lsn :: "(u64, u64 \<times> bool \<times> instant) hashmap"
  sp_last_heard :: "(u64, instant) hashmap"
  sp_peers_reconfirm :: "(u64, bool) hashmap"
  sp_peers_seq :: "(u64, u64) hashmap"
  sp_reconfirm_pending :: bool
  sp_decided :: "decision option"
  sp_last_proposed :: "u64 \<times> u64"
  sp_last_proposed_tick :: u64
  sp_promoted :: bool
  sp_promote_tick :: u64
  sp_rejoining :: bool
  sp_applied_primary :: u64
  sp_slots_ensured :: bool
  sp_applied_read_only :: "bool option"
  sp_applied_sync :: "string option"
  sp_authorized_since :: "instant option"
  sp_datadir :: "string option"
  sp_cluster_marker :: bool
  sp_ticks :: u64
  sp_last_loop :: instant

definition init_sup :: "decision option \<Rightarrow> instant \<Rightarrow> sup" where
  "init_sup current now =
     \<lparr>sp_last = [], sp_peers_lsn = [], sp_last_heard = [], sp_peers_reconfirm = [], sp_peers_seq = [],
      sp_reconfirm_pending = False, sp_decided = current, sp_last_proposed = (0, 0),
      sp_last_proposed_tick = 0, sp_promoted = False, sp_promote_tick = 0, sp_rejoining = False,
      sp_applied_primary = 0, sp_slots_ensured = False, sp_applied_read_only = None,
      sp_applied_sync = None, sp_authorized_since = None, sp_datadir = None,
      sp_cluster_marker = False, sp_ticks = 0, sp_last_loop = now\<rparr>"

definition gossip_every :: u64 where "gossip_every = 5"
definition dead_timeout :: duration where "dead_timeout = from_millis 2500"
definition confirm_window :: duration where "confirm_window = from_millis 1500"
definition quorum_lease :: duration where "quorum_lease = from_millis 1200"
definition stall_threshold :: duration where "stall_threshold = from_millis 1500"

text \<open>
  The inputs of one iteration, in the order in which they are read. A gossip message comes with
  the two times at which it is recorded.
\<close>

record tick_in =
  i_loop_now :: instant
  i_msgs :: "(u64 \<times> bytes \<times> instant \<times> instant) list"
  i_current :: "decision option"
  i_in_recovery :: bool
  i_local_lsn :: u64
  i_self_now :: instant
  i_marker_exists :: bool
  i_marker_written :: bool
  i_leads :: metrics
  i_leader_now :: instant
  i_probe :: "u64 \<Rightarrow> proc_output option"
  i_contact_now :: instant
  i_auth_now :: instant
  i_auth_check :: instant
  i_metrics :: metrics

section \<open>Bookkeeping phases\<close>

definition detect_stall :: "instant \<Rightarrow> sup \<Rightarrow> sup" where
  "detect_stall now st =
     (let st1 = (if duration_since now (sp_last_loop st) > stall_threshold
                 then st\<lparr>sp_applied_read_only := None, sp_authorized_since := None,
                         sp_reconfirm_pending := True\<rparr>
                 else st)
      in st1\<lparr>sp_last_loop := now\<rparr>)"

definition watchdog_of :: "sup_cfg \<Rightarrow> command" where
  "watchdog_of cfg =
     watchdog_command (cf_watchdog_script cfg) (t_psql (cf_target cfg)) (t_host (cf_target cfg))
       (t_port (cf_target cfg)) (cf_heartbeat_file cfg) (cf_node_id cfg) (t_user (cf_target cfg))"

definition beat :: "sup_cfg \<Rightarrow> sup \<Rightarrow> 'w io \<Rightarrow> 'w io" where
  "beat cfg st io =
     (let io1 = emit Heartbeat io
      in if cf_watchdog_script cfg \<noteq> [] \<and> sp_ticks st mod 50 = 49
         then emit (SpawnWatchdog (watchdog_of cfg)) io1 else io1)"

definition receive_gossip :: "sup \<Rightarrow> u64 \<times> bytes \<times> instant \<times> instant \<Rightarrow> sup" where
  "receive_gossip st = (\<lambda>(from, payload, heard_at, seen_at).
     (let st1 = st\<lparr>sp_last_heard := hm_insert from heard_at (sp_last_heard st)\<rparr>
      in case decode_gossip payload of
           None \<Rightarrow> st1
         | Some g \<Rightarrow>
             (let known = unwrap_or 0 (map_of (sp_peers_seq st1) from)
              in st1\<lparr>sp_peers_lsn := hm_insert from (g_lsn g, g_in_recovery g, seen_at) (sp_peers_lsn st1),
                     sp_peers_reconfirm := hm_insert from (g_reconfirm g) (sp_peers_reconfirm st1),
                     sp_peers_seq := hm_insert from (max known (g_seq g)) (sp_peers_seq st1)\<rparr>)))"

definition drain_gossip :: "tick_in \<Rightarrow> sup \<Rightarrow> sup" where
  "drain_gossip i st = foldl receive_gossip st (i_msgs i)"

definition adopt_decision :: "decision option \<Rightarrow> sup \<Rightarrow> sup" where
  "adopt_decision current st =
     (case current of
        None \<Rightarrow> st
      | Some d \<Rightarrow>
          if map_or True (\<lambda>cur. d \<noteq> cur) (sp_decided st)
          then st\<lparr>sp_decided := Some d, sp_promoted := False, sp_rejoining := False,
                  sp_applied_primary := 0, sp_slots_ensured := False,
                  sp_reconfirm_pending := False, sp_last_proposed := (0, 0)\<rparr>
          else st)"

definition decided_seq :: "sup \<Rightarrow> u64" where
  "decided_seq st = map_or 0 dec_seq (sp_decided st)"

definition decided_primary :: "sup \<Rightarrow> u64" where
  "decided_primary st = map_or 0 dec_primary (sp_decided st)"

definition gossip_phase :: "sup_cfg \<Rightarrow> tick_in \<Rightarrow> sup \<times> 'w io \<Rightarrow> sup \<times> 'w io" where
  "gossip_phase cfg i = (\<lambda>(st, io).
     (let st1 = st\<lparr>sp_ticks := sp_ticks st + 1\<rparr>
      in if sp_ticks st1 mod gossip_every = 0
         then (st1\<lparr>sp_peers_lsn :=
                     hm_insert (cf_node_id cfg) (i_local_lsn i, i_in_recovery i, i_self_now i) (sp_peers_lsn st1)\<rparr>,
               emit (GossipOut (cf_node_id cfg)
                       (encode_gossip (i_local_lsn i) (i_in_recovery i) (sp_reconfirm_pending st1) (decided_seq st1))) io)
         else (st1, io)))"

definition marker_path :: "string \<Rightarrow> string" where
  "marker_path datadir = (if last datadir = CHR ''/'' then datadir else datadir @ ''/'') @ ''pg_replica_cluster''"

definition datadir_phase :: "'w os \<Rightarrow> sup_cfg \<Rightarrow> tick_in \<Rightarrow> sup \<times> 'w io \<Rightarrow> sup \<times> 'w io" where
  "datadir_phase os cfg i = (\<lambda>(st, io).
     if sp_datadir st = None \<and> sp_ticks st mod 20 = 1 then
       (let (r, io1) = run_sql os cfg ShowDataDirectory io
        in case r of
             Inl _ \<Rightarrow> (st, io1)
           | Inr datadir \<Rightarrow>
               if datadir \<noteq> [] then (st\<lparr>sp_cluster_marker := i_marker_exists i, sp_datadir := Some datadir\<rparr>, io1)
               else (st, io1))
     else (st, io))"

definition marker_phase :: "tick_in \<Rightarrow> sup \<times> 'w io \<Rightarrow> sup \<times> 'w io" where
  "marker_phase i = (\<lambda>(st, io).
     if \<not> sp_cluster_marker st \<and> sp_decided st \<noteq> None then
       (case sp_datadir st of
          None \<Rightarrow> (st, io)
        | Some datadir \<Rightarrow>
            ((if i_marker_written i then st\<lparr>sp_cluster_marker := True\<rparr> else st),
             emit (WriteMarker (marker_path datadir)) io))
     else (st, io))"

section \<open>The leader proposes\<close>

definition live_members :: "sup_cfg \<Rightarrow> instant \<Rightarrow> sup \<Rightarrow> candidate list" where
  "live_members cfg now st =
     map (\<lambda>(k, lsn, rec, _). (k, lsn, rec))
       (filter (\<lambda>(k, _, _, seen). k = cf_node_id cfg \<or> duration_since now seen < dead_timeout)
          (sp_peers_lsn st))"

definition min_id :: "u64 list \<Rightarrow> u64 option" where
  "min_id ids = (case ids of [] \<Rightarrow> None | x # xs \<Rightarrow> Some (foldl min x xs))"

text \<open>\<open>probe\<close> is the output of the query each probing thread ran.\<close>

definition probed_lsn :: "sup_cfg \<Rightarrow> (u64 \<Rightarrow> proc_output option) \<Rightarrow> candidate \<Rightarrow> candidate" where
  "probed_lsn cfg probe = (\<lambda>(k, gossiped, rec).
     (k, if k = cf_node_id cfg then wal_lsn (probe k)
         else if member_addr k (cf_members cfg) \<noteq> None then unwrap_or gossiped (peer_wal_lsn (probe k))
         else gossiped, rec))"

definition leader_candidate :: "sup_cfg \<Rightarrow> tick_in \<Rightarrow> sup \<Rightarrow> u64 option" where
  "leader_candidate cfg i st =
     (let live = live_members cfg (i_leader_now i) st;
          current_primary = decided_primary st;
          primary_alive = (current_primary \<noteq> 0 \<and> list_ex (\<lambda>c. fst c = current_primary) live);
          needs_reconfirm = (sp_reconfirm_pending st \<or>
            list_ex (\<lambda>m. unwrap_or False (map_of (sp_peers_reconfirm st) (fst m))) live)
      in if sp_decided st = None then min_id (map fst (filter (\<lambda>m. \<not> snd (snd m)) live))
         else if \<not> primary_alive then choose_primary (map (probed_lsn cfg (i_probe i)) live)
         else if needs_reconfirm then Some current_primary
         else None)"

definition leader_phase :: "sup_cfg \<Rightarrow> tick_in \<Rightarrow> sup \<times> 'w io \<Rightarrow> sup \<times> 'w io" where
  "leader_phase cfg i = (\<lambda>(st, io).
     if is_leader (i_leads i) \<and> length (live_members cfg (i_leader_now i) st) \<ge> cf_majority cfg then
       (case leader_candidate cfg i st of
          None \<Rightarrow> (st, io)
        | Some cand \<Rightarrow>
            (let sq = decided_seq st + 1;
                 in_flight = (fst (sp_last_proposed st) = sq \<and>
                   saturating_sub (sp_ticks st) (sp_last_proposed_tick st) < 20)
             in if in_flight then (st, io)
                else (st\<lparr>sp_last_proposed := (sq, cand), sp_last_proposed_tick := sp_ticks st\<rparr>,
                      emit (Propose \<lparr>dec_seq = sq, dec_primary = cand\<rparr>) io)))
     else (st, io))"

section \<open>Quorum contact\<close>

definition reachable :: "sup_cfg \<Rightarrow> instant \<Rightarrow> sup \<Rightarrow> nat" where
  "reachable cfg now st =
     length (filter (\<lambda>(k, seen). k \<noteq> cf_node_id cfg \<and> duration_since now seen < quorum_lease)
       (sp_last_heard st))"

definition quorum_ok :: "sup_cfg \<Rightarrow> instant \<Rightarrow> sup \<Rightarrow> bool" where
  "quorum_ok cfg now st \<longleftrightarrow> 1 + reachable cfg now st \<ge> cf_majority cfg"

section \<open>A standby\<close>

definition clear_sync :: "'w os \<Rightarrow> sup_cfg \<Rightarrow> sup \<times> 'w io \<Rightarrow> sup \<times> 'w io" where
  "clear_sync os cfg = (\<lambda>(st, io).
     if sp_applied_sync st \<noteq> Some [] then
       (let (good, io1) = apply_setting os cfg (AlterSync []) io
        in (if good then st\<lparr>sp_applied_sync := Some []\<rparr> else st, io1))
     else (st, io))"

text \<open>Fence, then promote; the results of fencing are not looked at.\<close>

definition promote :: "'w os \<Rightarrow> sup_cfg \<Rightarrow> sup \<times> 'w io \<Rightarrow> sup \<times> 'w io" where
  "promote os cfg = (\<lambda>(st, io).
     (let st1 = (if sp_promoted st \<and> saturating_sub (sp_ticks st) (sp_promote_tick st) \<ge> 100
                 then st\<lparr>sp_promoted := False\<rparr> else st)
      in if \<not> sp_promoted st1 then
           (let (_, io1) = run_sql os cfg (AlterReadOnly True) io;
                (_, io2) = run_sql os cfg ReloadConf io1;
                (r, io3) = run_sql os cfg Promote io2
            in (if is_ok r then st1\<lparr>sp_promoted := True, sp_promote_tick := sp_ticks st1\<rparr> else st1, io3))
         else (st1, io)))"

definition repoint :: "'w os \<Rightarrow> sup_cfg \<Rightarrow> sup \<times> 'w io \<Rightarrow> sup \<times> 'w io" where
  "repoint os cfg = (\<lambda>(st, io).
     if decided_primary st \<noteq> 0 \<and> sp_applied_primary st \<noteq> decided_primary st
        \<and> member_addr (decided_primary st) (cf_members cfg) \<noteq> None then
       (let conninfo = standby_conninfo (cf_members cfg) (t_passfile (cf_target cfg)) (cf_node_id cfg);
            (good, io1) = apply_setting os cfg (AlterConninfo conninfo) io
        in (if good then st\<lparr>sp_applied_primary := decided_primary st\<rparr> else st, io1))
     else (st, io))"

definition standby_phase :: "'w os \<Rightarrow> sup_cfg \<Rightarrow> sup \<times> 'w io \<Rightarrow> sup \<times> 'w io" where
  "standby_phase os cfg = (\<lambda>(st, io).
     (let c1 = clear_sync os cfg
           (st\<lparr>sp_applied_read_only := None, sp_authorized_since := None\<rparr>, io)
      in if decided_primary st = cf_node_id cfg then promote os cfg c1 else repoint os cfg c1))"

section \<open>A server out of recovery\<close>

definition ensure_slots :: "'w os \<Rightarrow> sup_cfg \<Rightarrow> sup \<times> 'w io \<Rightarrow> sup \<times> 'w io" where
  "ensure_slots os cfg = (\<lambda>(st, io).
     if decided_primary st = cf_node_id cfg \<and> \<not> sp_slots_ensured st then
       (st\<lparr>sp_slots_ensured := True\<rparr>,
        foldl (\<lambda>x m. snd (run_sql os cfg (CreateSlot (p_id m)) x)) io
          (other_members (cf_node_id cfg) (cf_members cfg)))
     else (st, io))"

definition cluster_seq :: "sup \<Rightarrow> u64" where
  "cluster_seq st = foldl max 0 (map snd (sp_peers_seq st))"

definition raw_auth :: "sup_cfg \<Rightarrow> bool \<Rightarrow> sup \<Rightarrow> bool" where
  "raw_auth cfg quorum st =
     (case sp_decided st of
        None \<Rightarrow> quorum \<and> cluster_seq st = 0 \<and> \<not> sp_cluster_marker st
      | Some d \<Rightarrow> dec_primary d = cf_node_id cfg \<and> quorum \<and> \<not> sp_reconfirm_pending st)"

definition authorize :: "sup_cfg \<Rightarrow> tick_in \<Rightarrow> bool \<Rightarrow> sup \<Rightarrow> bool \<times> sup" where
  "authorize cfg i quorum st =
     (if \<not> raw_auth cfg quorum st then (False, st\<lparr>sp_authorized_since := None\<rparr>)
      else if sp_decided st = None \<or> sp_applied_read_only st = Some False
           then (True, st\<lparr>sp_authorized_since := Some (i_auth_now i)\<rparr>)
      else (let since = unwrap_or (i_auth_now i) (sp_authorized_since st)
            in (duration_since (i_auth_check i) since \<ge> confirm_window,
                st\<lparr>sp_authorized_since := Some since\<rparr>)))"

definition want_sync :: "sup_cfg \<Rightarrow> bool \<Rightarrow> sup \<Rightarrow> string option" where
  "want_sync cfg authorized st =
     (if \<not> cf_synchronous cfg then Some []
      else if authorized \<and> sp_decided st \<noteq> None then Some (cf_sync_target cfg)
      else None)"

definition fence :: "'w os \<Rightarrow> sup_cfg \<Rightarrow> bool \<Rightarrow> sup \<times> 'w io \<Rightarrow> sup \<times> 'w io" where
  "fence os cfg authorized = (\<lambda>(st, io).
     if \<not> authorized \<and> sp_applied_read_only st \<noteq> Some True then
       (let (good, io1) = apply_setting os cfg (AlterReadOnly True) io
        in (if good then st\<lparr>sp_applied_read_only := Some True\<rparr> else st, io1))
     else (st, io))"

definition configure_sync :: "'w os \<Rightarrow> sup_cfg \<Rightarrow> string option \<Rightarrow> sup \<times> 'w io \<Rightarrow> sup \<times> 'w io" where
  "configure_sync os cfg want = (\<lambda>(st, io).
     case want of
       None \<Rightarrow> (st, io)
     | Some names \<Rightarrow>
         if sp_applied_sync st \<noteq> Some names then
           (let (good, io1) = apply_setting os cfg (AlterSync names) io
            in (if good then st\<lparr>sp_applied_sync := Some names\<rparr> else st, io1))
         else (st, io))"

definition unfence :: "'w os \<Rightarrow> sup_cfg \<Rightarrow> bool \<Rightarrow> sup \<times> 'w io \<Rightarrow> sup \<times> 'w io" where
  "unfence os cfg authorized = (\<lambda>(st, io).
     if authorized \<and> sp_applied_read_only st \<noteq> Some False then
       (let (good, io1) = apply_setting os cfg (AlterReadOnly False) io
        in (if good then st\<lparr>sp_applied_read_only := Some False\<rparr> else st, io1))
     else (st, io))"

definition rejoin :: "'w os \<Rightarrow> sup_cfg \<Rightarrow> bool \<Rightarrow> sup \<times> 'w io \<Rightarrow> sup \<times> 'w io" where
  "rejoin os cfg authorized = (\<lambda>(st, io).
     if \<not> authorized \<and> decided_primary st \<noteq> 0 \<and> decided_primary st \<noteq> cf_node_id cfg
        \<and> \<not> sp_rejoining st \<and> cf_rejoin_script cfg \<noteq> [] then
       (case member_addr (decided_primary st) (cf_members cfg) of
          None \<Rightarrow> (st, io)
        | Some addr \<Rightarrow>
            (let (host, port) = split_host_port addr;
                 (datadir, io1) = (case sp_datadir st of
                    Some d \<Rightarrow> (d, io)
                  | None \<Rightarrow> (let (r, io1) = run_sql os cfg ShowDataDirectory io
                             in (unwrap_or [] (ok r), io1)))
             in if datadir \<noteq> [] then
                  (st\<lparr>sp_rejoining := True\<rparr>,
                   emit (SpawnRejoin (rejoin_command (cf_rejoin_script cfg) (cf_pgbin cfg) datadir host port
                     (cf_node_id cfg) (t_passfile (cf_target cfg))
                     (standby_conninfo (cf_members cfg) (t_passfile (cf_target cfg)) (cf_node_id cfg)))) io1)
                else (st, io1)))
     else (st, io))"

definition primary_phase :: "'w os \<Rightarrow> sup_cfg \<Rightarrow> tick_in \<Rightarrow> bool \<Rightarrow> sup \<times> 'w io \<Rightarrow> sup \<times> 'w io" where
  "primary_phase os cfg i quorum = (\<lambda>c.
     (let (st1, io1) = ensure_slots os cfg c;
          (authorized, st2) = authorize cfg i quorum st1;
          c3 = fence os cfg authorized (st2, io1);
          c4 = configure_sync os cfg (want_sync cfg authorized st2) c3;
          c5 = unfence os cfg authorized c4
      in rejoin os cfg authorized c5))"

section \<open>The status line\<close>

definition repl_text :: "sup_cfg \<Rightarrow> sup \<Rightarrow> string" where
  "repl_text cfg st =
     (if decided_primary st = cf_node_id cfg then ''primary''
      else if decided_primary st \<noteq> 0 then
        (case member_addr (decided_primary st) (cf_members cfg) of
           Some addr \<Rightarrow> ''standby<-'' @ addr
         | None \<Rightarrow> ''standby<-?'')
      else ''bootstrap'')"

definition status_snapshot :: "sup_cfg \<Rightarrow> tick_in \<Rightarrow> bool \<Rightarrow> sup \<Rightarrow> string" where
  "status_snapshot cfg i quorum st =
     role_name (i_metrics i) @ '' term='' @ show_u64 (mt_term (i_metrics i))
     @ '' leader='' @ show_u64 (leader_id (i_metrics i))
     @ '' decided_primary='' @ show_u64 (decided_primary st)
     @ '' seq='' @ show_u64 (decided_seq st)
     @ '' quorum='' @ show_bool quorum
     @ '' read_only='' @ show_bool (sp_applied_read_only st = Some True)
     @ '' reconfirm='' @ show_bool (sp_reconfirm_pending st)
     @ '' | repl='' @ repl_text cfg st
     @ '' in_recovery='' @ show_bool (i_in_recovery i)"

definition report :: "sup_cfg \<Rightarrow> tick_in \<Rightarrow> bool \<Rightarrow> sup \<times> 'w io \<Rightarrow> sup \<times> 'w io" where
  "report cfg i quorum = (\<lambda>(st, io).
     (let line = status_snapshot cfg i quorum st
      in if line \<noteq> sp_last st then (st\<lparr>sp_last := line\<rparr>, emit (StatusLine line) io) else (st, io)))"

section \<open>The loop\<close>

text \<open>The phases before the server's role matters: they issue no statement that changes a setting.\<close>

definition prepare :: "'w os \<Rightarrow> sup_cfg \<Rightarrow> tick_in \<Rightarrow> sup \<times> 'w io \<Rightarrow> sup \<times> 'w io" where
  "prepare os cfg i = (\<lambda>(st, io).
     (let st1 = detect_stall (i_loop_now i) st;
          io1 = beat cfg st1 io;
          st2 = adopt_decision (i_current i) (drain_gossip i st1)
      in leader_phase cfg i (marker_phase i (datadir_phase os cfg i (gossip_phase cfg i (st2, io1))))))"

definition tick :: "'w os \<Rightarrow> sup_cfg \<Rightarrow> tick_in \<Rightarrow> sup \<times> 'w io \<Rightarrow> sup \<times> 'w io" where
  "tick os cfg i c =
     (let c1 = prepare os cfg i c;
          quorum = quorum_ok cfg (i_contact_now i) (fst c1);
          c2 = (if i_in_recovery i then standby_phase os cfg c1 else primary_phase os cfg i quorum c1)
      in report cfg i quorum c2)"

definition run_ticks :: "'w os \<Rightarrow> sup_cfg \<Rightarrow> tick_in list \<Rightarrow> sup \<times> 'w io \<Rightarrow> sup \<times> 'w io" where
  "run_ticks os cfg is c = foldl (\<lambda>c i. tick os cfg i c) c is"

text \<open>The loop until SIGTERM, and what follows it.\<close>

definition supervise :: "'w os \<Rightarrow> sup_cfg \<Rightarrow> decision option \<Rightarrow> instant \<Rightarrow> tick_in list \<Rightarrow> 'w io \<Rightarrow> sup \<times> 'w io" where
  "supervise os cfg current now ts io =
     (let (st, io1) = run_ticks os cfg ts (init_sup current now, io)
      in (st, emit (StatusLine ''stopped'') (emit RaftShutdown io1)))"

text \<open>\<open>replica.status()\<close>, from the settings and the status file.\<close>

definition status_function :: "guc_values \<Rightarrow> unicode option \<Rightarrow> unicode" where
  "status_function v live =
     points (''pg_replica node_id='' @ show_int (v_node_id v) @ '' raft_port='' @ show_int (v_raft_port v)
     @ '' peers=['' @ cfg_peers v @ ''] | '')
     @ unwrap_or (points ''consensus not started'') live"

end
