(* ===== verification/SupervisorSafety.thy ===== *)
theory SupervisorSafety
  imports Supervisor
begin

text \<open>
  What an iteration of the supervisor may and must do to the PostgreSQL server: the shape of
  the events each phase emits, and from it when a node fences, configures synchronous
  replication, unfences, promotes and proposes.
\<close>

section \<open>Events of a phase\<close>

text \<open>The events of \<open>apply_setting\<close> and its result.\<close>

definition setting_events :: "sql \<Rightarrow> event list \<Rightarrow> bool \<Rightarrow> bool" where
  "setting_events q es good \<longleftrightarrow> es = [Sql q False] \<and> \<not> good \<or> es = [Sql q True, Sql ReloadConf good]"

lemma emit_events [simp]: "io_events (emit e io) = io_events io @ [e]"
  by (simp add: emit_def)

lemma run_sql_events: "run_sql os cfg q io = (r, io') \<Longrightarrow> io_events io' = io_events io @ [Sql q (is_ok r)]"
  by (auto simp: run_sql_def Let_def split: prod.splits)

lemma apply_setting_events:
  "apply_setting os cfg q io = (good, io') \<Longrightarrow>
     \<exists>es. io_events io' = io_events io @ es \<and> setting_events q es good"
  by (auto simp: apply_setting_def setting_events_def Let_def split: prod.splits if_splits
      dest!: run_sql_events)

lemma setting_events_sql:
  "setting_events q es good \<Longrightarrow> Sql q' b \<in> set es \<Longrightarrow> q' = q \<or> q' = ReloadConf"
  "setting_events q es good \<Longrightarrow> \<exists>b. Sql q b \<in> set es"
  by (auto simp: setting_events_def)

text \<open>Events that change no setting of the server.\<close>

fun quiet :: "event \<Rightarrow> bool" where
  "quiet (Sql q b) = (case q of ShowDataDirectory \<Rightarrow> True | CreateSlot k \<Rightarrow> True | _ \<Rightarrow> False)"
| "quiet _ = True"

definition calm :: "event list \<Rightarrow> bool" where
  "calm es = list_all quiet es"

lemma calm_simps [simp]: "calm []" "calm (e # es) \<longleftrightarrow> quiet e \<and> calm es" "calm (xs @ ys) \<longleftrightarrow> calm xs \<and> calm ys"
  by (simp_all add: calm_def)

lemma calm_no_change:
  "calm es \<Longrightarrow> Sql (AlterReadOnly x) b \<notin> set es" "calm es \<Longrightarrow> Sql (AlterSync n) b \<notin> set es"
  "calm es \<Longrightarrow> Sql (AlterConninfo n) b \<notin> set es" "calm es \<Longrightarrow> Sql Promote b \<notin> set es"
  "calm es \<Longrightarrow> Sql ReloadConf b \<notin> set es"
  by (auto simp: calm_def list_all_iff)

lemma prepare_calm: "prepare os cfg i (st, io) = (st', io') \<Longrightarrow> \<exists>es. io_events io' = io_events io @ es \<and> calm es"
proof -
  define st1 where "st1 = detect_stall (i_loop_now i) st"
  define io1 where "io1 = beat cfg st1 io"
  define st2 where "st2 = adopt_decision (i_current i) (drain_gossip i st1)"
  obtain e1 where e1: "io_events io1 = io_events io @ e1" "calm e1"
    by (cases "cf_watchdog_script cfg \<noteq> [] \<and> sp_ticks st1 mod 50 = 49") (auto simp: io1_def beat_def)
  obtain st3 io3 where c3: "gossip_phase cfg i (st2, io1) = (st3, io3)" by fastforce
  obtain e3 where e3: "io_events io3 = io_events io1 @ e3" "calm e3"
    using c3 by (auto simp: gossip_phase_def Let_def split: if_splits)
  obtain st4 io4 where c4: "datadir_phase os cfg i (st3, io3) = (st4, io4)" by fastforce
  obtain e4 where e4: "io_events io4 = io_events io3 @ e4" "calm e4"
    using c4 by (auto simp: datadir_phase_def split: if_splits prod.splits sum.splits dest!: run_sql_events)
  obtain st5 io5 where c5: "marker_phase i (st4, io4) = (st5, io5)" by fastforce
  obtain e5 where e5: "io_events io5 = io_events io4 @ e5" "calm e5"
    using c5 by (auto simp: marker_phase_def split: if_splits option.splits)
  obtain st6 io6 where c6: "leader_phase cfg i (st5, io5) = (st6, io6)" by fastforce
  obtain e6 where e6: "io_events io6 = io_events io5 @ e6" "calm e6"
    using c6 by (auto simp: leader_phase_def Let_def split: if_splits option.splits)
  assume "prepare os cfg i (st, io) = (st', io')"
  then have "io6 = io'"
    using c3 c4 c5 c6 by (simp add: prepare_def Let_def st1_def io1_def st2_def)
  then show ?thesis using e1 e3 e4 e5 e6 by (intro exI [of _ "e1 @ e3 @ e4 @ e5 @ e6"]) simp
qed

lemma sup_self [simp]:
  "st\<lparr>sp_applied_read_only := sp_applied_read_only st\<rparr> = st"
  "st\<lparr>sp_applied_sync := sp_applied_sync st\<rparr> = st"
  "st\<lparr>sp_rejoining := sp_rejoining st\<rparr> = st"
  "st\<lparr>sp_slots_ensured := sp_slots_ensured st\<rparr> = st"
  "st\<lparr>sp_last := sp_last st\<rparr> = st"
  by (cases st; simp)+

text \<open>
  Each phase that may set something: the fields it changes, and its events when its condition
  holds; otherwise it does nothing.
\<close>

definition sets :: "bool \<Rightarrow> sql \<Rightarrow> 'w io \<Rightarrow> 'w io \<Rightarrow> bool \<Rightarrow> bool" where
  "sets cond q io io' good \<longleftrightarrow>
     (if cond then \<exists>es. io_events io' = io_events io @ es \<and> setting_events q es good
      else io_events io' = io_events io \<and> \<not> good)"

lemma apply_setting_sets:
  "apply_setting os cfg q io = (good, io') \<Longrightarrow> sets True q io io' good"
  unfolding sets_def using apply_setting_events by simp

lemma no_sets: "sets False q io io False"
  by (simp add: sets_def)

lemma fence_shape:
  "fence os cfg a (st, io) = (st', io') \<Longrightarrow>
     \<exists>good. sets (\<not> a \<and> sp_applied_read_only st \<noteq> Some True) (AlterReadOnly True) io io' good \<and>
       st' = (if good then st\<lparr>sp_applied_read_only := Some True\<rparr> else st)"
proof (cases "\<not> a \<and> sp_applied_read_only st \<noteq> Some True")
  case True
  assume "fence os cfg a (st, io) = (st', io')"
  moreover obtain good io1 where s: "apply_setting os cfg (AlterReadOnly True) io = (good, io1)"
    by fastforce
  ultimately have "st' = (if good then st\<lparr>sp_applied_read_only := Some True\<rparr> else st)" "io' = io1"
    using True by (simp_all add: fence_def s)
  then show ?thesis using apply_setting_sets [OF s] True by (intro exI [of _ good]) (simp only: simp_thms)
next
  case False
  assume "fence os cfg a (st, io) = (st', io')"
  then have "st' = st" "io' = io" by (simp_all only: fence_def prod.case if_not_P [OF False] prod.inject)
  then show ?thesis using False by (intro exI [of _ False]) (simp only: sets_def if_False simp_thms)
qed

lemma configure_sync_shape:
  "configure_sync os cfg want (st, io) = (st', io') \<Longrightarrow>
     \<exists>good. sets (want \<noteq> None \<and> sp_applied_sync st \<noteq> want) (AlterSync (the want)) io io' good \<and>
       st' = (if good then st\<lparr>sp_applied_sync := want\<rparr> else st)"
proof (cases "want \<noteq> None \<and> sp_applied_sync st \<noteq> want")
  case True
  then obtain names where w: "want = Some names" "sp_applied_sync st \<noteq> Some names" by auto
  assume "configure_sync os cfg want (st, io) = (st', io')"
  moreover obtain good io1 where s: "apply_setting os cfg (AlterSync names) io = (good, io1)"
    by fastforce
  ultimately have "st' = (if good then st\<lparr>sp_applied_sync := want\<rparr> else st)" "io' = io1"
    using w by (auto simp: configure_sync_def s)
  then show ?thesis using apply_setting_sets [OF s] w by (intro exI [of _ good]) simp
next
  case False
  assume "configure_sync os cfg want (st, io) = (st', io')"
  then have "st' = st" "io' = io" using False by (auto simp: configure_sync_def split: option.splits if_splits)
  then show ?thesis using False by (intro exI [of _ False]) (simp only: sets_def if_False simp_thms)
qed

lemma unfence_shape:
  "unfence os cfg a (st, io) = (st', io') \<Longrightarrow>
     \<exists>good. sets (a \<and> sp_applied_read_only st \<noteq> Some False) (AlterReadOnly False) io io' good \<and>
       st' = (if good then st\<lparr>sp_applied_read_only := Some False\<rparr> else st)"
proof (cases "a \<and> sp_applied_read_only st \<noteq> Some False")
  case True
  assume "unfence os cfg a (st, io) = (st', io')"
  moreover obtain good io1 where s: "apply_setting os cfg (AlterReadOnly False) io = (good, io1)"
    by fastforce
  ultimately have "st' = (if good then st\<lparr>sp_applied_read_only := Some False\<rparr> else st)" "io' = io1"
    using True by (simp_all add: unfence_def s)
  then show ?thesis using apply_setting_sets [OF s] True by (intro exI [of _ good]) (simp only: simp_thms)
next
  case False
  assume "unfence os cfg a (st, io) = (st', io')"
  then have "st' = st" "io' = io" by (simp_all only: unfence_def prod.case if_not_P [OF False] prod.inject)
  then show ?thesis using False by (intro exI [of _ False]) (simp only: sets_def if_False simp_thms)
qed

lemma rejoin_calm:
  "rejoin os cfg a (st, io) = (st', io') \<Longrightarrow>
     (\<exists>es. io_events io' = io_events io @ es \<and> calm es) \<and> st' = st\<lparr>sp_rejoining := sp_rejoining st'\<rparr>"
  by (auto simp: rejoin_def Let_def split: prod.splits if_splits option.splits dest!: run_sql_events)

lemma create_slots_calm:
  "\<exists>es. io_events (foldl (\<lambda>x m. snd (run_sql os cfg (CreateSlot (p_id m)) x)) io ms) = io_events io @ es \<and> calm es"
proof (induction ms arbitrary: io)
  case (Cons m ms)
  obtain r io1 where q: "run_sql os cfg (CreateSlot (p_id m)) io = (r, io1)" by fastforce
  from Cons.IH [of io1] obtain es where
    "io_events (foldl (\<lambda>x m. snd (run_sql os cfg (CreateSlot (p_id m)) x)) io1 ms) = io_events io1 @ es" "calm es"
    by blast
  then show ?case using run_sql_events [OF q] q by simp
qed simp

lemma slots_calm:
  "ensure_slots os cfg (st, io) = (st', io') \<Longrightarrow>
     (\<exists>es. io_events io' = io_events io @ es \<and> calm es) \<and> st' = st\<lparr>sp_slots_ensured := sp_slots_ensured st'\<rparr>"
  using create_slots_calm by (auto simp: ensure_slots_def split: if_splits)

section \<open>The shape of an iteration\<close>

definition sets_list :: "bool \<Rightarrow> sql \<Rightarrow> event list \<Rightarrow> bool \<Rightarrow> bool" where
  "sets_list cond q es good \<longleftrightarrow> (if cond then setting_events q es good else es = [] \<and> \<not> good)"

lemma sets_sets_list:
  "sets cond q io io' good \<Longrightarrow> \<exists>es. io_events io' = io_events io @ es \<and> sets_list cond q es good"
  by (auto simp: sets_def sets_list_def split: if_splits)

lemma sets_list_sql:
  "sets_list cond q es good \<Longrightarrow> Sql q' b \<in> set es \<Longrightarrow> cond \<and> (q' = q \<or> q' = ReloadConf)"
  "sets_list cond q es good \<Longrightarrow> cond \<Longrightarrow> \<exists>b. Sql q b \<in> set es"
  by (auto simp: sets_list_def setting_events_def split: if_splits)

text \<open>The decision of \<open>authorize\<close> in an iteration whose preparation ended in \<open>st\<close>.\<close>

definition authority :: "sup_cfg \<Rightarrow> tick_in \<Rightarrow> sup \<Rightarrow> bool" where
  "authority cfg i st = fst (authorize cfg i (quorum_ok cfg (i_contact_now i) st) st)"

lemma authorize_slots:
  "authorize cfg i q (st\<lparr>sp_slots_ensured := b\<rparr>) =
     map_prod id (\<lambda>s. s\<lparr>sp_slots_ensured := b\<rparr>) (authorize cfg i q st)"
proof -
  have "raw_auth cfg q (st\<lparr>sp_slots_ensured := b\<rparr>) = raw_auth cfg q st"
    by (simp add: raw_auth_def cluster_seq_def split: option.split)
  then show ?thesis
    by (cases "raw_auth cfg q st"; cases "sp_decided st = None \<or> sp_applied_read_only st = Some False")
      (auto simp: authorize_def Let_def)
qed

lemma authorize_fields:
  "authorize cfg i q st = (a, st') \<Longrightarrow> st' = st\<lparr>sp_authorized_since := sp_authorized_since st'\<rparr>"
  by (auto simp: authorize_def Let_def split: if_splits)

lemma want_sync_slots [simp]:
  "want_sync cfg a (st\<lparr>sp_slots_ensured := b, sp_authorized_since := t\<rparr>) = want_sync cfg a st"
  by (simp add: want_sync_def)

text \<open>
  The whole branch of a server out of recovery: what it sets, in this order, and what it then
  remembers.
\<close>

definition role_events ::
    "sup_cfg \<Rightarrow> bool \<Rightarrow> sup \<Rightarrow> sup \<Rightarrow> event list \<Rightarrow> event list \<Rightarrow> event list \<Rightarrow> bool" where
  "role_events cfg a st st' f s u \<longleftrightarrow>
     (\<exists>gf gs gu.
       sets_list (\<not> a \<and> sp_applied_read_only st \<noteq> Some True) (AlterReadOnly True) f gf \<and>
       sets_list (want_sync cfg a st \<noteq> None \<and> sp_applied_sync st \<noteq> want_sync cfg a st)
         (AlterSync (the (want_sync cfg a st))) s gs \<and>
       sets_list (a \<and> sp_applied_read_only st \<noteq> Some False) (AlterReadOnly False) u gu \<and>
       sp_applied_read_only st' =
         (if gu then Some False else if gf then Some True else sp_applied_read_only st) \<and>
       sp_applied_sync st' = (if gs then want_sync cfg a st else sp_applied_sync st))"

lemma primary_shape:
  assumes "primary_phase os cfg i q (st, io) = (st', io')"
  shows "\<exists>pre f s u post. io_events io' = io_events io @ pre @ f @ s @ u @ post \<and> calm pre \<and> calm post \<and>
    role_events cfg (fst (authorize cfg i q st)) st st' f s u \<and>
    sp_authorized_since st' = sp_authorized_since (snd (authorize cfg i q st)) \<and>
    sp_decided st' = sp_decided st \<and> sp_reconfirm_pending st' = sp_reconfirm_pending st"
proof -
  obtain st1 io1 where c1: "ensure_slots os cfg (st, io) = (st1, io1)" by fastforce
  obtain a st2 where c2: "authorize cfg i q st1 = (a, st2)" by fastforce
  obtain st3 io3 where c3: "fence os cfg a (st2, io1) = (st3, io3)" by fastforce
  obtain st4 io4 where c4: "configure_sync os cfg (want_sync cfg a st2) (st3, io3) = (st4, io4)" by fastforce
  obtain st5 io5 where c5: "unfence os cfg a (st4, io4) = (st5, io5)" by fastforce
  have c6: "rejoin os cfg a (st5, io5) = (st', io')"
    using assms c1 c2 c3 c4 c5 by (simp add: primary_phase_def)
  obtain pre where pre: "io_events io1 = io_events io @ pre" "calm pre"
    and st1: "st1 = st\<lparr>sp_slots_ensured := sp_slots_ensured st1\<rparr>"
    using slots_calm [OF c1] by blast
  have auth: "a = fst (authorize cfg i q st)"
    and st2: "st2 = (snd (authorize cfg i q st))\<lparr>sp_slots_ensured := sp_slots_ensured st1\<rparr>"
    using authorize_slots [of cfg i q "sp_slots_ensured st1" st] c2 unfolding st1 [symmetric]
    by (simp_all add: map_prod_def case_prod_unfold)
  have snd_auth: "snd (authorize cfg i q st) =
      st\<lparr>sp_authorized_since := sp_authorized_since (snd (authorize cfg i q st))\<rparr>"
    by (rule authorize_fields [of cfg i q st "fst (authorize cfg i q st)"]) simp
  have same: "sp_applied_read_only st2 = sp_applied_read_only st" "sp_applied_sync st2 = sp_applied_sync st"
    "sp_decided st2 = sp_decided st" "sp_reconfirm_pending st2 = sp_reconfirm_pending st"
    "want_sync cfg a st2 = want_sync cfg a st"
    "sp_authorized_since st2 = sp_authorized_since (snd (authorize cfg i q st))"
    unfolding st2 by (subst snd_auth, simp add: want_sync_def)+
  obtain gf where f0: "sets (\<not> a \<and> sp_applied_read_only st2 \<noteq> Some True) (AlterReadOnly True) io1 io3 gf"
    and st3: "st3 = (if gf then st2\<lparr>sp_applied_read_only := Some True\<rparr> else st2)"
    using fence_shape [OF c3] by blast
  obtain gs where s0: "sets (want_sync cfg a st2 \<noteq> None \<and> sp_applied_sync st3 \<noteq> want_sync cfg a st2)
      (AlterSync (the (want_sync cfg a st2))) io3 io4 gs"
    and st4: "st4 = (if gs then st3\<lparr>sp_applied_sync := want_sync cfg a st2\<rparr> else st3)"
    using configure_sync_shape [OF c4] by blast
  obtain gu where u0: "sets (a \<and> sp_applied_read_only st4 \<noteq> Some False) (AlterReadOnly False) io4 io5 gu"
    and st5: "st5 = (if gu then st4\<lparr>sp_applied_read_only := Some False\<rparr> else st4)"
    using unfence_shape [OF c5] by blast
  obtain post where post: "io_events io' = io_events io5 @ post" "calm post"
    and st': "st' = st5\<lparr>sp_rejoining := sp_rejoining st'\<rparr>"
    using rejoin_calm [OF c6] by blast
  obtain f s u where f: "io_events io3 = io_events io1 @ f"
      "sets_list (\<not> a \<and> sp_applied_read_only st2 \<noteq> Some True) (AlterReadOnly True) f gf"
    and s: "io_events io4 = io_events io3 @ s"
      "sets_list (want_sync cfg a st2 \<noteq> None \<and> sp_applied_sync st3 \<noteq> want_sync cfg a st2)
        (AlterSync (the (want_sync cfg a st2))) s gs"
    and u: "io_events io5 = io_events io4 @ u"
      "sets_list (a \<and> sp_applied_read_only st4 \<noteq> Some False) (AlterReadOnly False) u gu"
    using sets_sets_list [OF f0] sets_sets_list [OF s0] sets_sets_list [OF u0] by blast
  have gf: "gf \<Longrightarrow> \<not> a" using f(2) by (simp add: sets_list_def split: if_splits)
  have sync3: "sp_applied_sync st3 = sp_applied_sync st"
    and ucond: "(a \<and> sp_applied_read_only st4 \<noteq> Some False) = (a \<and> sp_applied_read_only st \<noteq> Some False)"
    using gf by (auto simp: st3 st4 same)
  have st'_sync: "sp_applied_sync st' = (if gs then want_sync cfg a st else sp_applied_sync st)"
    and st'_ro: "sp_applied_read_only st' =
      (if gu then Some False else if gf then Some True else sp_applied_read_only st)"
    by (subst st', simp add: st5 st4 st3 same)+
  have role: "role_events cfg a st st' f s u"
    using f(2) s(2) u(2) st'_sync st'_ro unfolding role_events_def same sync3 ucond by blast
  have rest: "sp_authorized_since st' = sp_authorized_since (snd (authorize cfg i q st))"
    "sp_decided st' = sp_decided st" "sp_reconfirm_pending st' = sp_reconfirm_pending st"
    by (subst st', simp add: st5 st4 st3 same)+
  have "io_events io' = io_events io @ pre @ f @ s @ u @ post"
    using pre(1) f(1) s(1) u(1) post(1) by simp
  then show ?thesis
    using pre(2) post(2) role [unfolded auth] rest by blast
qed

lemma report_calm:
  "report cfg i q (st, io) = (st', io') \<Longrightarrow>
     (\<exists>es. io_events io' = io_events io @ es \<and> calm es) \<and> st' = st\<lparr>sp_last := sp_last st'\<rparr>"
  by (auto simp: report_def Let_def split: if_splits)

lemma tick_primary:
  assumes "tick os cfg i (st, io) = (st', io')" "\<not> i_in_recovery i"
    and "prepare os cfg i (st, io) = (st1, io1)" "io_events io' = io_events io @ es"
  shows "\<exists>pre f s u post. es = pre @ f @ s @ u @ post \<and> calm pre \<and> calm post \<and>
    role_events cfg (authority cfg i st1) st1 st' f s u \<and>
    sp_authorized_since st' = sp_authorized_since (snd (authorize cfg i (quorum_ok cfg (i_contact_now i) st1) st1)) \<and>
    sp_decided st' = sp_decided st1 \<and> sp_reconfirm_pending st' = sp_reconfirm_pending st1"
proof -
  let ?q = "quorum_ok cfg (i_contact_now i) st1"
  obtain st2 io2 where c2: "primary_phase os cfg i ?q (st1, io1) = (st2, io2)" by fastforce
  then have c3: "report cfg i ?q (st2, io2) = (st', io')"
    using assms(1-3) by (simp add: tick_def)
  obtain p1 where p1: "io_events io1 = io_events io @ p1" "calm p1"
    using prepare_calm [OF assms(3)] by blast
  obtain pre f s u post where e: "io_events io2 = io_events io1 @ pre @ f @ s @ u @ post"
      "calm pre" "calm post"
    and r: "role_events cfg (authority cfg i st1) st1 st2 f s u"
    and rest: "sp_authorized_since st2 = sp_authorized_since (snd (authorize cfg i ?q st1))"
      "sp_decided st2 = sp_decided st1" "sp_reconfirm_pending st2 = sp_reconfirm_pending st1"
    using primary_shape [OF c2] unfolding authority_def by blast
  obtain p2 where p2: "io_events io' = io_events io2 @ p2" "calm p2"
    and st': "st' = st2\<lparr>sp_last := sp_last st'\<rparr>"
    using report_calm [OF c3] by blast
  have eqs: "sp_applied_read_only st' = sp_applied_read_only st2" "sp_applied_sync st' = sp_applied_sync st2"
    "sp_authorized_since st' = sp_authorized_since st2" "sp_decided st' = sp_decided st2"
    "sp_reconfirm_pending st' = sp_reconfirm_pending st2"
    by (subst st', simp)+
  have "es = (p1 @ pre) @ f @ s @ u @ (post @ p2)"
    using assms(4) p1(1) e(1) p2(1) by simp
  moreover have "role_events cfg (authority cfg i st1) st1 st' f s u"
    using r unfolding role_events_def eqs .
  ultimately show ?thesis
    using p1(2) e(2,3) p2(2) rest eqs
    by (intro exI [of _ "p1 @ pre"] exI [of _ f] exI [of _ s] exI [of _ u] exI [of _ "post @ p2"]) simp
qed

lemma clear_sync_shape:
  "clear_sync os cfg (st, io) = (st', io') \<Longrightarrow>
     \<exists>good. sets (sp_applied_sync st \<noteq> Some []) (AlterSync []) io io' good \<and>
       st' = (if good then st\<lparr>sp_applied_sync := Some []\<rparr> else st)"
  using configure_sync_shape [of os cfg "Some []" st io st' io']
  by (simp add: configure_sync_def clear_sync_def)

definition promotion :: "bool \<Rightarrow> bool \<Rightarrow> bool \<Rightarrow> event list" where
  "promotion b1 b2 b = [Sql (AlterReadOnly True) b1, Sql ReloadConf b2, Sql Promote b]"

definition promote_due :: "sup \<Rightarrow> bool" where
  "promote_due st \<longleftrightarrow> \<not> sp_promoted st \<or> saturating_sub (sp_ticks st) (sp_promote_tick st) \<ge> 100"

lemma promote_shape:
  "promote os cfg (st, io) = (st', io') \<Longrightarrow>
     (if promote_due st
      then \<exists>b1 b2 b. io_events io' = io_events io @ promotion b1 b2 b \<and> sp_promoted st' = b
      else io_events io' = io_events io \<and> st' = st) \<and>
     sp_applied_read_only st' = sp_applied_read_only st \<and> sp_authorized_since st' = sp_authorized_since st \<and>
     sp_decided st' = sp_decided st \<and> sp_reconfirm_pending st' = sp_reconfirm_pending st \<and>
     sp_applied_sync st' = sp_applied_sync st"
proof (cases "promote_due st")
  case True
  obtain r1 io1 where q1: "run_sql os cfg (AlterReadOnly True) io = (r1, io1)" by fastforce
  obtain r2 io2 where q2: "run_sql os cfg ReloadConf io1 = (r2, io2)" by fastforce
  obtain r3 io3 where q3: "run_sql os cfg Promote io2 = (r3, io3)" by fastforce
  assume "promote os cfg (st, io) = (st', io')"
  then show ?thesis
    using True run_sql_events [OF q1] run_sql_events [OF q2] run_sql_events [OF q3]
    by (auto simp: promote_def promote_due_def Let_def q1 q2 q3 promotion_def split: if_splits)
next
  case False
  assume "promote os cfg (st, io) = (st', io')"
  then show ?thesis using False by (simp add: promote_def promote_due_def)
qed

definition repoint_due :: "sup_cfg \<Rightarrow> sup \<Rightarrow> bool" where
  "repoint_due cfg st \<longleftrightarrow> decided_primary st \<noteq> 0 \<and> sp_applied_primary st \<noteq> decided_primary st \<and>
     member_addr (decided_primary st) (cf_members cfg) \<noteq> None"

definition conninfo_of :: "sup_cfg \<Rightarrow> string" where
  "conninfo_of cfg = standby_conninfo (cf_members cfg) (t_passfile (cf_target cfg)) (cf_node_id cfg)"

lemma repoint_shape:
  "repoint os cfg (st, io) = (st', io') \<Longrightarrow>
     \<exists>good. sets (repoint_due cfg st) (AlterConninfo (conninfo_of cfg)) io io' good \<and>
       st' = (if good then st\<lparr>sp_applied_primary := decided_primary st\<rparr> else st)"
proof (cases "repoint_due cfg st")
  case True
  obtain good io1 where s: "apply_setting os cfg (AlterConninfo (conninfo_of cfg)) io = (good, io1)"
    by fastforce
  assume "repoint os cfg (st, io) = (st', io')"
  then have "(st', io') = (if good then st\<lparr>sp_applied_primary := decided_primary st\<rparr> else st, io1)"
    using True s by (auto simp: repoint_def repoint_due_def conninfo_of_def Let_def)
  then show ?thesis using apply_setting_sets [OF s] True by (intro exI [of _ good]) simp
next
  case False
  assume "repoint os cfg (st, io) = (st', io')"
  then have "(st', io') = (st, io)" using False by (auto simp: repoint_def repoint_due_def split: if_splits)
  then show ?thesis using False by (intro exI [of _ False]) (simp add: sets_def)
qed

lemma tick_standby:
  assumes "tick os cfg i (st, io) = (st', io')" "i_in_recovery i"
    and "prepare os cfg i (st, io) = (st1, io1)" "io_events io' = io_events io @ es"
  shows "\<exists>pre c p post gc. es = pre @ c @ p @ post \<and> calm pre \<and> calm post \<and>
    sets_list (sp_applied_sync st1 \<noteq> Some []) (AlterSync []) c gc \<and>
    (if decided_primary st1 = cf_node_id cfg
     then (if promote_due st1 then \<exists>b1 b2 b. p = promotion b1 b2 b \<and> sp_promoted st' = b else p = [])
     else \<exists>gp. sets_list (repoint_due cfg st1) (AlterConninfo (conninfo_of cfg)) p gp \<and>
       (gp \<longrightarrow> sp_applied_primary st' = decided_primary st1)) \<and>
    sp_applied_read_only st' = None \<and> sp_authorized_since st' = None \<and>
    sp_decided st' = sp_decided st1 \<and> sp_reconfirm_pending st' = sp_reconfirm_pending st1 \<and>
    sp_applied_sync st' = (if gc then Some [] else sp_applied_sync st1)"
proof -
  let ?q = "quorum_ok cfg (i_contact_now i) st1"
  define st2 where "st2 = st1\<lparr>sp_applied_read_only := None, sp_authorized_since := None\<rparr>"
  obtain st3 io3 where c3: "clear_sync os cfg (st2, io1) = (st3, io3)" by fastforce
  obtain st4 io4 where c4: "(if decided_primary st1 = cf_node_id cfg then promote os cfg (st3, io3)
      else repoint os cfg (st3, io3)) = (st4, io4)" by fastforce
  have c5: "report cfg i ?q (st4, io4) = (st', io')"
    using assms(1-3) c3 c4 by (simp add: tick_def standby_phase_def st2_def [symmetric])
  obtain p1 where p1: "io_events io1 = io_events io @ p1" "calm p1"
    using prepare_calm [OF assms(3)] by blast
  obtain gc where c0: "sets (sp_applied_sync st2 \<noteq> Some []) (AlterSync []) io1 io3 gc"
    and st3: "st3 = (if gc then st2\<lparr>sp_applied_sync := Some []\<rparr> else st2)"
    using clear_sync_shape [OF c3] by blast
  obtain c where c: "io_events io3 = io_events io1 @ c"
      "sets_list (sp_applied_sync st1 \<noteq> Some []) (AlterSync []) c gc"
    using sets_sets_list [OF c0] by (auto simp: st2_def)
  obtain p2 where p2: "io_events io' = io_events io4 @ p2" "calm p2"
    and st': "st' = st4\<lparr>sp_last := sp_last st'\<rparr>"
    using report_calm [OF c5] by blast
  have same: "decided_primary st3 = decided_primary st1" "promote_due st3 = promote_due st1"
    "repoint_due cfg st3 = repoint_due cfg st1" "sp_applied_read_only st3 = None"
    "sp_authorized_since st3 = None" "sp_decided st3 = sp_decided st1"
    "sp_reconfirm_pending st3 = sp_reconfirm_pending st1"
    "sp_applied_sync st3 = (if gc then Some [] else sp_applied_sync st1)"
    by (simp_all add: st3 st2_def decided_primary_def promote_due_def repoint_due_def)
  have eqs: "sp_applied_read_only st' = sp_applied_read_only st4" "sp_promoted st' = sp_promoted st4"
    "sp_authorized_since st' = sp_authorized_since st4" "sp_decided st' = sp_decided st4"
    "sp_reconfirm_pending st' = sp_reconfirm_pending st4" "sp_applied_primary st' = sp_applied_primary st4"
    "sp_applied_sync st' = sp_applied_sync st4"
    by (subst st', simp)+
  have "\<exists>p. io_events io4 = io_events io3 @ p \<and>
      (if decided_primary st1 = cf_node_id cfg
       then (if promote_due st1 then \<exists>b1 b2 b. p = promotion b1 b2 b \<and> sp_promoted st4 = b else p = [])
       else \<exists>gp. sets_list (repoint_due cfg st1) (AlterConninfo (conninfo_of cfg)) p gp \<and>
         (gp \<longrightarrow> sp_applied_primary st4 = decided_primary st1)) \<and>
      sp_applied_read_only st4 = None \<and> sp_authorized_since st4 = None \<and>
      sp_decided st4 = sp_decided st1 \<and> sp_reconfirm_pending st4 = sp_reconfirm_pending st1 \<and>
      sp_applied_sync st4 = (if gc then Some [] else sp_applied_sync st1)"
  proof (cases "decided_primary st1 = cf_node_id cfg")
    case True
    with c4 have "promote os cfg (st3, io3) = (st4, io4)" by simp
    from promote_shape [OF this] True show ?thesis unfolding same by (auto split: if_splits)
  next
    case False
    with c4 have "repoint os cfg (st3, io3) = (st4, io4)" by simp
    from repoint_shape [OF this] obtain gp
      where r: "sets (repoint_due cfg st3) (AlterConninfo (conninfo_of cfg)) io3 io4 gp"
        and st4: "st4 = (if gp then st3\<lparr>sp_applied_primary := decided_primary st3\<rparr> else st3)" by blast
    from sets_sets_list [OF r] obtain p where "io_events io4 = io_events io3 @ p"
      "sets_list (repoint_due cfg st1) (AlterConninfo (conninfo_of cfg)) p gp"
      unfolding same by blast
    then show ?thesis using False by (intro exI [of _ p]) (auto simp: st4 same intro!: exI [of _ gp])
  qed
  then obtain p where p: "io_events io4 = io_events io3 @ p"
      "if decided_primary st1 = cf_node_id cfg
       then (if promote_due st1 then \<exists>b1 b2 b. p = promotion b1 b2 b \<and> sp_promoted st4 = b else p = [])
       else \<exists>gp. sets_list (repoint_due cfg st1) (AlterConninfo (conninfo_of cfg)) p gp \<and>
         (gp \<longrightarrow> sp_applied_primary st4 = decided_primary st1)"
      "sp_applied_read_only st4 = None" "sp_authorized_since st4 = None"
      "sp_decided st4 = sp_decided st1" "sp_reconfirm_pending st4 = sp_reconfirm_pending st1"
      "sp_applied_sync st4 = (if gc then Some [] else sp_applied_sync st1)"
    by blast
  have "es = p1 @ c @ p @ p2" using assms(4) p1(1) c(1) p(1) p2(1) by simp
  then show ?thesis
    using p1(2) p2(2) c(2) p(2-7) unfolding eqs by blast
qed

lemma role_sql:
  "role_events cfg a st st' f s u \<Longrightarrow> Sql (AlterReadOnly False) b \<in> set (f @ s @ u) \<Longrightarrow>
     a \<and> Sql (AlterReadOnly False) b \<in> set u \<and> sp_applied_read_only st \<noteq> Some False"
  "role_events cfg a st st' f s u \<Longrightarrow> Sql (AlterReadOnly True) b \<in> set (f @ s @ u) \<Longrightarrow>
     \<not> a \<and> Sql (AlterReadOnly True) b \<in> set f \<and> sp_applied_read_only st \<noteq> Some True"
  "role_events cfg a st st' f s u \<Longrightarrow> Sql (AlterSync x) b \<in> set (f @ s @ u) \<Longrightarrow>
     Sql (AlterSync x) b \<in> set s \<and> want_sync cfg a st = Some x \<and> sp_applied_sync st \<noteq> Some x"
  by (auto simp: role_events_def dest!: sets_list_sql(1))

lemma calm_around:
  "calm pre \<Longrightarrow> calm post \<Longrightarrow> \<not> quiet e \<Longrightarrow> e \<in> set (pre @ xs @ post) \<longleftrightarrow> e \<in> set xs"
  by (auto simp: calm_def list_all_iff)

text \<open>The events a property is about, when they stand between calm ones.\<close>

lemma around_role:
  "calm pre \<Longrightarrow> calm post \<Longrightarrow> \<not> quiet e \<Longrightarrow>
     e \<in> set (pre @ f @ s @ u @ post) \<longleftrightarrow> e \<in> set (f @ s @ u)"
  using calm_around [of pre post e "f @ s @ u"] by simp

lemma authority_raw: "authority cfg i st \<Longrightarrow> raw_auth cfg (quorum_ok cfg (i_contact_now i) st) st"
  by (auto simp: authority_def authorize_def split: if_splits)

lemma authority_window:
  "authority cfg i st \<Longrightarrow> sp_decided st = Some d \<Longrightarrow> sp_applied_read_only st \<noteq> Some False \<Longrightarrow>
     confirm_window \<le> duration_since (i_auth_check i) (unwrap_or (i_auth_now i) (sp_authorized_since st))"
  by (auto simp: authority_def authorize_def Let_def split: if_splits)

lemma standby_no_unfence:
  assumes "tick os cfg i (st, io) = (st', io')" "i_in_recovery i" "io_events io' = io_events io @ es"
  shows "Sql (AlterReadOnly False) b \<notin> set es"
proof -
  obtain st1 io1 where p: "prepare os cfg i (st, io) = (st1, io1)" by fastforce
  obtain pre c p' post gc where es: "es = pre @ c @ p' @ post" "calm pre" "calm post"
    and c: "sets_list (sp_applied_sync st1 \<noteq> Some []) (AlterSync []) c gc"
    and p': "if decided_primary st1 = cf_node_id cfg
      then (if promote_due st1 then \<exists>b1 b2 b. p' = promotion b1 b2 b \<and> sp_promoted st' = b else p' = [])
      else \<exists>gp. sets_list (repoint_due cfg st1) (AlterConninfo (conninfo_of cfg)) p' gp \<and>
        (gp \<longrightarrow> sp_applied_primary st' = decided_primary st1)"
    using tick_standby [OF assms(1,2) p assms(3)] by blast
  have "Sql (AlterReadOnly False) b \<notin> set c" using sets_list_sql(1) [OF c] by blast
  moreover have "Sql (AlterReadOnly False) b \<notin> set p'"
    using p' sets_list_sql(1) by (fastforce simp: promotion_def split: if_splits)
  ultimately show ?thesis using calm_no_change(1) es by simp
qed

text \<open>An iteration that makes the server writable does so with authority.\<close>

lemma tick_unfences:
  assumes "tick os cfg i (st, io) = (st', io')" "io_events io' = io_events io @ es"
    and "Sql (AlterReadOnly False) b \<in> set es" "prepare os cfg i (st, io) = (st1, io1)"
  shows "\<not> i_in_recovery i" "authority cfg i st1" "sp_applied_read_only st1 \<noteq> Some False"
    "raw_auth cfg (quorum_ok cfg (i_contact_now i) st1) st1"
proof -
  show rec: "\<not> i_in_recovery i" using standby_no_unfence [OF assms(1) _ assms(2)] assms(3) by blast
  obtain pre f s u post where es: "es = pre @ f @ s @ u @ post" "calm pre" "calm post"
    and r: "role_events cfg (authority cfg i st1) st1 st' f s u"
    using tick_primary [OF assms(1) rec assms(4,2)] by blast
  have "Sql (AlterReadOnly False) b \<in> set (f @ s @ u)"
    using assms(3) around_role [OF es(2,3)] unfolding es(1) by simp
  from role_sql(1) [OF r this] show "authority cfg i st1" "sp_applied_read_only st1 \<noteq> Some False"
    by auto
  then show "raw_auth cfg (quorum_ok cfg (i_contact_now i) st1) st1" using authority_raw by blast
qed

lemma events_extend:
  assumes "tick os cfg i (st, io) = (st', io')"
  shows "\<exists>es. io_events io' = io_events io @ es"
proof -
  obtain st1 io1 where p: "prepare os cfg i (st, io) = (st1, io1)" by fastforce
  obtain e1 where e1: "io_events io1 = io_events io @ e1" using prepare_calm [OF p] by blast
  let ?q = "quorum_ok cfg (i_contact_now i) st1"
  show ?thesis
  proof (cases "i_in_recovery i")
    case False
    obtain st2 io2 where c2: "primary_phase os cfg i ?q (st1, io1) = (st2, io2)" by fastforce
    then have "report cfg i ?q (st2, io2) = (st', io')" using assms p False by (simp add: tick_def)
    then show ?thesis using primary_shape [OF c2] report_calm e1 by fastforce
  next
    case True
    define st2 where "st2 = st1\<lparr>sp_applied_read_only := None, sp_authorized_since := None\<rparr>"
    obtain st3 io3 where c3: "clear_sync os cfg (st2, io1) = (st3, io3)" by fastforce
    obtain st4 io4 where c4: "(if decided_primary st1 = cf_node_id cfg then promote os cfg (st3, io3)
        else repoint os cfg (st3, io3)) = (st4, io4)" by fastforce
    have c5: "report cfg i ?q (st4, io4) = (st', io')"
      using assms p True c3 c4 by (simp add: tick_def standby_phase_def st2_def [symmetric])
    have e3: "\<exists>es. io_events io3 = io_events io1 @ es"
      using clear_sync_shape [OF c3] sets_sets_list by blast
    have "\<exists>es. io_events io4 = io_events io3 @ es"
    proof (cases "decided_primary st1 = cf_node_id cfg")
      case True
      with c4 have "promote os cfg (st3, io3) = (st4, io4)" by simp
      from promote_shape [OF this] show ?thesis by (auto split: if_splits)
    next
      case False
      with c4 have "repoint os cfg (st3, io3) = (st4, io4)" by simp
      from repoint_shape [OF this] show ?thesis using sets_sets_list by blast
    qed
    then show ?thesis using e1 e3 report_calm [OF c5] by (metis append_assoc)
  qed
qed

section \<open>A concrete iteration\<close>

text \<open>
  A server whose \<open>k\<close>-th statement fails for the \<open>k\<close> in a set, a primary that has been in
  contact with one of two peers, and an iteration without news.
\<close>

definition os_ex :: "nat set \<Rightarrow> nat os" where
  "os_ex bad = (\<lambda>_ k. (Some \<lparr>o_success = k \<notin> bad, o_stdout = [], o_stderr = []\<rparr>, Suc k))"

definition now_ex :: instant where "now_ex = 2000000000"

definition follower_ex :: metrics where
  "follower_ex = \<lparr>mt_state = Follower, mt_term = 1, mt_leader = None\<rparr>"

definition tick_ex :: tick_in where
  "tick_ex = \<lparr>i_loop_now = now_ex, i_msgs = [], i_current = None, i_in_recovery = False, i_local_lsn = 0,
     i_self_now = now_ex, i_marker_exists = True, i_marker_written = True, i_leads = follower_ex,
     i_leader_now = now_ex, i_probe = \<lambda>_. None, i_contact_now = now_ex, i_auth_now = now_ex,
     i_auth_check = now_ex, i_metrics = follower_ex\<rparr>"

definition sup_ex :: sup where
  "sup_ex = (init_sup (Some \<lparr>dec_seq = 1, dec_primary = 1\<rparr>) now_ex)
     \<lparr>sp_last_heard := [(2, now_ex)], sp_authorized_since := Some 0, sp_datadir := Some ''/d'',
      sp_cluster_marker := True, sp_slots_ensured := True\<rparr>"

definition io_ex :: "nat io" where "io_ex = \<lparr>io_world = 0, io_events = []\<rparr>"

lemma prepare_plain:
  assumes "sp_ticks st = 0" "sp_datadir st \<noteq> None" "sp_cluster_marker st" "i_msgs i = []" "i_current i = None"
    "\<not> is_leader (i_leads i)" "cf_watchdog_script cfg = []"
  shows "prepare os cfg i (st, io) = ((detect_stall (i_loop_now i) st)\<lparr>sp_ticks := 1\<rparr>, emit Heartbeat io)"
  using assms by (auto simp: prepare_def beat_def drain_gossip_def adopt_decision_def gossip_phase_def
      datadir_phase_def marker_phase_def leader_phase_def detect_stall_def gossip_every_def Let_def)

lemma report_events:
  "io_events (snd (report cfg i q c)) = io_events (snd c) @
     (if status_snapshot cfg i q (fst c) \<noteq> sp_last (fst c) then [StatusLine (status_snapshot cfg i q (fst c))] else [])"
  by (simp add: report_def Let_def split: prod.split)

text \<open>What evaluating an iteration unfolds, before and on the branch of a primary.\<close>

lemmas prepare_eval = prepare_def beat_def drain_gossip_def receive_gossip_def decode_gossip_def
  adopt_decision_def gossip_phase_def datadir_phase_def marker_phase_def leader_phase_def detect_stall_def
  gossip_every_def run_sql_def sql_result_def trim_def emit_def duration_since_def hm_insert_def Let_def

lemmas primary_eval = primary_phase_def ensure_slots_def authorize_def raw_auth_def cluster_seq_def fence_def
  configure_sync_def unfence_def rejoin_def want_sync_def apply_setting_def run_sql_def emit_def sql_result_def
  confirm_window_def from_millis_def duration_since_def decided_primary_def other_members_def Let_def

lemmas tick_ex_defs = tick_ex_def sup_ex_def init_sup_def io_ex_def os_ex_def follower_ex_def is_leader_def cfg_ex_def
  now_ex_def

lemma plain_ex: "is_leader (i_leads tick_ex) = False" "i_msgs tick_ex = []" "i_current tick_ex = None"
  "cf_watchdog_script cfg_ex = []"
  "i_loop_now tick_ex = now_ex" "i_in_recovery tick_ex = False"
  by (simp_all add: tick_ex_defs)

lemma prepare_quiet_ex:
  assumes "sp_ticks st = 0" "sp_datadir st \<noteq> None" "sp_cluster_marker st" "sp_last_loop st = now_ex"
    and "i = tick_ex \<or> i = tick_ex\<lparr>i_in_recovery := True\<rparr>"
  shows "prepare os cfg_ex i (st, io) = (st\<lparr>sp_ticks := 1\<rparr>, emit Heartbeat io)"
proof -
  have i: "i_loop_now i = now_ex" "i_msgs i = []" "i_current i = None" "\<not> is_leader (i_leads i)"
    using assms(5) plain_ex by auto
  have "detect_stall now_ex st = st"
    using assms(4) by (cases st) (simp add: detect_stall_def stall_threshold_def duration_since_def)
  then show ?thesis
    using prepare_plain [OF assms(1-3) i(2-4) plain_ex(4), of os io] i(1) by simp
qed

lemma prepare_ex: "prepare os cfg_ex tick_ex (sup_ex, io) = (sup_ex\<lparr>sp_ticks := 1\<rparr>, emit Heartbeat io)"
  by (rule prepare_quiet_ex) (simp_all add: sup_ex_def init_sup_def)

lemma quorum_ex: "quorum_ok cfg_ex now_ex (sup_ex\<lparr>sp_ticks := 1\<rparr>)"
  by (simp add: quorum_ok_def reachable_def duration_since_def quorum_lease_def from_millis_def tick_ex_defs)

lemma phase_ex:
  "io_events (snd (primary_phase (os_ex {}) cfg_ex tick_ex True (sup_ex\<lparr>sp_ticks := 1\<rparr>, emit Heartbeat io_ex))) =
    [Heartbeat, Sql (AlterSync ''ANY 1 (node2, node3)'') True, Sql ReloadConf True,
     Sql (AlterReadOnly False) True, Sql ReloadConf True]"
  by (simp add: primary_eval tick_ex_defs)


lemma tick_plain:
  assumes "prepare os cfg i c = (st1, io1)" "quorum_ok cfg (i_contact_now i) st1" "\<not> i_in_recovery i"
  shows "\<exists>post. io_events (snd (tick os cfg i c)) =
     io_events (snd (primary_phase os cfg i True (st1, io1))) @ post \<and>
     (\<forall>q b. Sql q b \<notin> set post) \<and> (\<forall>cmd. SpawnRejoin cmd \<notin> set post)"
  using assms by (simp add: tick_def Let_def report_events)

lemma tick_ex_events:
  "\<exists>post. io_events (snd (tick os cfg_ex tick_ex (sup_ex, io_ex))) =
     io_events (snd (primary_phase os cfg_ex tick_ex True (sup_ex\<lparr>sp_ticks := 1\<rparr>, emit Heartbeat io_ex))) @ post \<and>
     (\<forall>q b. Sql q b \<notin> set post)"
proof -
  have now: "i_contact_now tick_ex = now_ex" by (simp add: tick_ex_def)
  show ?thesis
    by (rule exI, rule conjI) (simp add: tick_def Let_def prepare_ex plain_ex now quorum_ex report_events, simp)
qed

lemma run_ex: "tick os cfg i c = (fst (tick os cfg i c), snd (tick os cfg i c))"
  "io_events (snd (tick os cfg i (st, io_ex))) = io_events io_ex @ io_events (snd (tick os cfg i (st, io_ex)))"
  by (simp_all add: io_ex_def)

lemma unfence_ex: "Sql (AlterReadOnly False) True \<in> set (io_events (snd (tick (os_ex {}) cfg_ex tick_ex (sup_ex, io_ex))))"
  using tick_ex_events [of "os_ex {}"] unfolding phase_ex by auto

section \<open>Fencing and unfencing\<close>

text \<open>
  C7: A node is made writable only with authority: an iteration that turns
  \<open>default_transaction_read_only\<close> off runs on a server out of recovery that is in contact with
  a majority (itself included), and either the decided primary is this node, nothing waits for
  a confirmation and the authority has lasted the confirmation window, or the cluster has never
  decided anything as far as this node, its marker file and its peers know.
\<close>

theorem unfence_requires_authority:
  assumes "tick os cfg i (st, io) = (st', io')" "io_events io' = io_events io @ es"
    and "Sql (AlterReadOnly False) b \<in> set es"
    and "st1 = fst (prepare os cfg i (st, io))"
  shows "\<not> i_in_recovery i \<and> cf_majority cfg \<le> 1 + reachable cfg (i_contact_now i) st1 \<and>
    (case sp_decided st1 of
       None \<Rightarrow> cluster_seq st1 = 0 \<and> \<not> sp_cluster_marker st1
     | Some d \<Rightarrow> dec_primary d = cf_node_id cfg \<and> \<not> sp_reconfirm_pending st1 \<and>
         confirm_window \<le> duration_since (i_auth_check i) (unwrap_or (i_auth_now i) (sp_authorized_since st1)))"
proof -
  obtain io1 where p: "prepare os cfg i (st, io) = (st1, io1)"
    using assms(4) by (cases "prepare os cfg i (st, io)") simp
  note u = tick_unfences [OF assms(1-3) p]
  show ?thesis
    using u authority_window [OF u(2) _ u(3)]
    by (auto simp: raw_auth_def quorum_ok_def split: option.splits)
qed

theorem unfence_requires_authority_witness:
  "cf_majority cfg_ex \<le> 1 + reachable cfg_ex (i_contact_now tick_ex) (sup_ex\<lparr>sp_ticks := 1\<rparr>) \<and>
   confirm_window \<le> duration_since now_ex 0"
  using unfence_requires_authority [OF run_ex(1) run_ex(2) unfence_ex refl] unfolding prepare_ex
  by (simp add: tick_ex_def sup_ex_def init_sup_def)

text \<open>
  C6: A primary without authority is fenced. An iteration on a server out of recovery that has no
  authority (no contact with a majority; or another node is the decided primary, or a confirmation
  is pending, or the confirmation window has not passed on a node not known to be writable; or
  nothing is decided but a peer knows of a decision or the marker file was found) never makes the
  server writable and sends the read-only statement unless the fence is known to be on; if all its
  statements succeed the fence is then known to be on. It keeps the start of its authority while it
  only waits for the window and forgets it otherwise. With synchronous replication it leaves the
  standby list alone, so that no commit in flight is acknowledged without its quorum; without, the
  only list it ever sets is the empty one.
\<close>

theorem primary_without_authority_is_fenced:
  assumes "tick os cfg i (st, io) = (st', io')" "io_events io' = io_events io @ es"
    and "st1 = fst (prepare os cfg i (st, io))" "\<not> i_in_recovery i"
    and "\<not> quorum_ok cfg (i_contact_now i) st1 \<or>
      (case sp_decided st1 of
         None \<Rightarrow> cluster_seq st1 \<noteq> 0 \<or> sp_cluster_marker st1
       | Some d \<Rightarrow> dec_primary d \<noteq> cf_node_id cfg \<or> sp_reconfirm_pending st1 \<or>
           sp_applied_read_only st1 \<noteq> Some False \<and>
           duration_since (i_auth_check i) (unwrap_or (i_auth_now i) (sp_authorized_since st1)) < confirm_window)"
  shows "(\<forall>b. Sql (AlterReadOnly False) b \<notin> set es) \<and>
    ((\<exists>b. Sql (AlterReadOnly True) b \<in> set es) \<longleftrightarrow> sp_applied_read_only st1 \<noteq> Some True) \<and>
    (list_all (\<lambda>e. case e of Sql q b \<Rightarrow> b | _ \<Rightarrow> True) es \<longrightarrow> sp_applied_read_only st' = Some True) \<and>
    sp_authorized_since st' =
      (if raw_auth cfg (quorum_ok cfg (i_contact_now i) st1) st1
       then Some (unwrap_or (i_auth_now i) (sp_authorized_since st1)) else None) \<and>
    (\<forall>n b. Sql (AlterSync n) b \<in> set es \<longrightarrow> n = [] \<and> \<not> cf_synchronous cfg) \<and>
    (cf_synchronous cfg \<longrightarrow> sp_applied_sync st' = sp_applied_sync st1)"
proof -
  let ?q = "quorum_ok cfg (i_contact_now i) st1"
  obtain io1 where p: "prepare os cfg i (st, io) = (st1, io1)"
    using assms(3) by (cases "prepare os cfg i (st, io)") simp
  have a: "authority cfg i st1 = False" and since: "sp_authorized_since (snd (authorize cfg i ?q st1)) =
      (if raw_auth cfg ?q st1 then Some (unwrap_or (i_auth_now i) (sp_authorized_since st1)) else None)"
    using assms(5) by (auto simp: authority_def authorize_def raw_auth_def Let_def split: option.splits)
  obtain pre f s u post where es: "es = pre @ f @ s @ u @ post" "calm pre" "calm post"
    and r: "role_events cfg False st1 st' f s u"
    and t: "sp_authorized_since st' = sp_authorized_since (snd (authorize cfg i ?q st1))"
    using tick_primary [OF assms(1,4) p assms(2)] unfolding a by blast
  note around = around_role [OF es(2,3)]
  have sql: "\<not> quiet (Sql (AlterReadOnly x) b)" "\<not> quiet (Sql (AlterSync n) b)" for x n b by simp_all
  have fence: "(\<exists>b. Sql (AlterReadOnly True) b \<in> set es) \<longleftrightarrow> sp_applied_read_only st1 \<noteq> Some True"
  proof
    assume "\<exists>b. Sql (AlterReadOnly True) b \<in> set es"
    then show "sp_applied_read_only st1 \<noteq> Some True"
      using role_sql(2) [OF r] around [OF sql(1)] unfolding es(1) by blast
  next
    assume "sp_applied_read_only st1 \<noteq> Some True"
    then have "\<exists>b. Sql (AlterReadOnly True) b \<in> set f"
      using r sets_list_sql(2) unfolding role_events_def by blast
    then show "\<exists>b. Sql (AlterReadOnly True) b \<in> set es" unfolding es(1) by auto
  qed
  have all_ok: "sp_applied_read_only st' = Some True"
    if ok: "list_all (\<lambda>e. case e of Sql q b \<Rightarrow> b | _ \<Rightarrow> True) es"
  proof -
    have "list_all (\<lambda>e. case e of Sql q b \<Rightarrow> b | _ \<Rightarrow> True) f" using ok unfolding es(1) by simp
    then show ?thesis
      using r by (auto simp: role_events_def sets_list_def setting_events_def split: if_splits)
  qed
  have sync: "n = [] \<and> \<not> cf_synchronous cfg" if "Sql (AlterSync n) b \<in> set es" for n b
  proof -
    have at: "Sql (AlterSync n) b \<in> set (f @ s @ u)" using that around [OF sql(2)] unfolding es(1) by blast
    have "want_sync cfg False st1 = Some n" using role_sql(3) [OF r at] by blast
    then show ?thesis by (simp add: want_sync_def split: if_splits)
  qed
  have kept: "sp_applied_sync st' = sp_applied_sync st1" if "cf_synchronous cfg"
    using r that by (auto simp: role_events_def sets_list_def want_sync_def split: if_splits)
  show ?thesis
    using fence all_ok sync kept t [unfolded since] role_sql(1) [OF r] around [OF sql(1)] unfolding es(1) by blast
qed

theorem primary_without_authority_is_fenced_witness:
  "\<exists>b. Sql (AlterReadOnly True) b \<in>
     set (io_events (snd (tick (os_ex {0}) cfg_ex tick_ex (sup_ex\<lparr>sp_last_heard := []\<rparr>, io_ex))))"
proof -
  let ?st = "sup_ex\<lparr>sp_last_heard := []\<rparr>"
  have p: "prepare os cfg_ex tick_ex (?st, io) = (?st\<lparr>sp_ticks := 1\<rparr>, emit Heartbeat io)" for os :: "nat os" and io
    by (rule prepare_quiet_ex) (simp_all add: sup_ex_def init_sup_def)
  have "\<not> quorum_ok cfg_ex (i_contact_now tick_ex) (?st\<lparr>sp_ticks := 1\<rparr>)"
    by (simp add: quorum_ok_def reachable_def cfg_ex_def)
  then show ?thesis
    using primary_without_authority_is_fenced [where i = tick_ex and os = "os_ex {0}" and cfg = cfg_ex
        and st = ?st, OF run_ex(1) run_ex(2) refl] plain_ex
    unfolding p by (simp add: sup_ex_def init_sup_def)
qed

text \<open>
  C13: The order of an iteration that makes a node writable: nothing sets the standby list after
  the read-write statement, and nothing turns read-only on in the same iteration. With synchronous
  replication and a decision, setting the quorum list was attempted before the read-write
  statement unless the supervisor already had it as set; and if moreover every statement before
  the read-write one succeeded, the supervisor has the quorum list as set afterwards. (If one
  failed, or nothing is decided, the read-write statement is sent all the same.)
\<close>

theorem unfence_comes_after_sync:
  assumes "tick os cfg i (st, io) = (st', io')" "io_events io' = io_events io @ es"
    and "es = xs @ Sql (AlterReadOnly False) b # ys" "st1 = fst (prepare os cfg i (st, io))"
  shows "(\<forall>n b. Sql (AlterSync n) b \<notin> set ys) \<and> (\<forall>b. Sql (AlterReadOnly True) b \<notin> set es) \<and>
    (cf_synchronous cfg \<longrightarrow> sp_decided st1 \<noteq> None \<longrightarrow>
       (sp_applied_sync st1 = Some (cf_sync_target cfg) \<or> (\<exists>b'. Sql (AlterSync (cf_sync_target cfg)) b' \<in> set xs)) \<and>
       (list_all (\<lambda>e. case e of Sql q b \<Rightarrow> b | _ \<Rightarrow> True) xs \<longrightarrow> sp_applied_sync st' = Some (cf_sync_target cfg)))"
proof -
  obtain io1 where p: "prepare os cfg i (st, io) = (st1, io1)"
    using assms(4) by (cases "prepare os cfg i (st, io)") simp
  have mem: "Sql (AlterReadOnly False) b \<in> set es" using assms(3) by simp
  have rec: "\<not> i_in_recovery i"
    using standby_no_unfence [OF assms(1) _ assms(2)] mem by blast
  obtain pre f s u post where es: "es = pre @ f @ s @ u @ post" "calm pre" "calm post"
    and r: "role_events cfg (authority cfg i st1) st1 st' f s u"
    using tick_primary [OF assms(1) rec p assms(2)] by blast
  note around = around_role [OF es(2,3)]
  have un: "Sql (AlterReadOnly False) b \<in> set (f @ s @ u)"
    using mem around unfolding es(1) by simp
  have a: "authority cfg i st1" and inu: "Sql (AlterReadOnly False) b \<in> set u"
    using role_sql(1) [OF r un] by auto
  have f: "f = []" using r a by (auto simp: role_events_def sets_list_def)
  have su: "Sql (AlterReadOnly False) b' \<notin> set (pre @ s)" for b'
    using r calm_no_change(1) [OF es(2)] unfolding role_events_def
    by (auto dest: sets_list_sql(1))
  obtain u1 where u: "u = Sql (AlterReadOnly False) b # u1"
      "\<forall>n b. Sql (AlterSync n) b \<notin> set u1" "\<forall>b. Sql (AlterReadOnly False) b \<notin> set u1"
    using r inu by (auto simp: role_events_def sets_list_def setting_events_def split: if_splits)
  have split: "xs = pre @ s \<and> ys = u1 @ post"
  proof -
    have "xs @ Sql (AlterReadOnly False) b # ys = (pre @ s) @ Sql (AlterReadOnly False) b # (u1 @ post)"
      using es(1) assms(3) f u(1) by simp
    moreover have "Sql (AlterReadOnly False) b \<notin> set (u1 @ post)"
      using u(3) calm_no_change(1) [OF es(3)] by simp
    ultimately show ?thesis
      using su [of b] by (metis append_Cons_eq_iff)
  qed
  have ys: "\<forall>n b. Sql (AlterSync n) b \<notin> set ys"
    using split u(2) calm_no_change(2) [OF es(3)] by auto
  have ro: "\<forall>b. Sql (AlterReadOnly True) b \<notin> set es"
    using role_sql(2) [OF r] a around unfolding es(1) by fastforce
  have want: "want_sync cfg (authority cfg i st1) st1 = Some (cf_sync_target cfg)"
    if "cf_synchronous cfg" "sp_decided st1 \<noteq> None"
    using that a by (simp add: want_sync_def)
  have tried: "sp_applied_sync st1 = Some (cf_sync_target cfg) \<or> (\<exists>b'. Sql (AlterSync (cf_sync_target cfg)) b' \<in> set xs)"
    if "cf_synchronous cfg" "sp_decided st1 \<noteq> None"
    using r unfolding role_events_def want [OF that] by (auto simp: split dest: sets_list_sql(2))
  have "sp_applied_sync st' = Some (cf_sync_target cfg)"
    if "cf_synchronous cfg" "sp_decided st1 \<noteq> None" "list_all (\<lambda>e. case e of Sql q b \<Rightarrow> b | _ \<Rightarrow> True) xs"
  proof -
    have "list_all (\<lambda>e. case e of Sql q b \<Rightarrow> b | _ \<Rightarrow> True) s" using that(3) split by simp
    then show ?thesis
      using r unfolding role_events_def want [OF that(1,2)]
      by (auto simp: sets_list_def setting_events_def split: if_splits)
  qed
  then show ?thesis using ys ro tried by blast
qed

theorem unfence_comes_after_sync_witness:
  "sp_applied_sync (fst (tick (os_ex {}) cfg_ex tick_ex (sup_ex, io_ex))) = Some ''ANY 1 (node2, node3)''"
proof -
  obtain post where "io_events (snd (tick (os_ex {}) cfg_ex tick_ex (sup_ex, io_ex))) =
      [Heartbeat, Sql (AlterSync ''ANY 1 (node2, node3)'') True, Sql ReloadConf True] @
      Sql (AlterReadOnly False) True # (Sql ReloadConf True # post)"
    using tick_ex_events [of "os_ex {}"] unfolding phase_ex by auto
  from unfence_comes_after_sync [OF run_ex(1) run_ex(2) this refl]
  show ?thesis unfolding prepare_ex by (simp add: cfg_ex_def sup_ex_def init_sup_def)
qed

section \<open>What preparation does to the authority\<close>

definition stalled :: "tick_in \<Rightarrow> sup \<Rightarrow> bool" where
  "stalled i st \<longleftrightarrow> duration_since (i_loop_now i) (sp_last_loop st) > stall_threshold"

definition adopts :: "tick_in \<Rightarrow> sup \<Rightarrow> bool" where
  "adopts i st \<longleftrightarrow> (case i_current i of None \<Rightarrow> False | Some d \<Rightarrow> sp_decided st \<noteq> Some d)"

lemma receive_gossip_fields:
  "sp_applied_read_only (receive_gossip st m) = sp_applied_read_only st"
  "sp_applied_sync (receive_gossip st m) = sp_applied_sync st"
  "sp_authorized_since (receive_gossip st m) = sp_authorized_since st"
  "sp_reconfirm_pending (receive_gossip st m) = sp_reconfirm_pending st"
  "sp_decided (receive_gossip st m) = sp_decided st"
  by (simp_all add: receive_gossip_def Let_def split: prod.split option.split)

lemma drain_gossip_fields:
  "sp_applied_read_only (drain_gossip i st) = sp_applied_read_only st"
  "sp_applied_sync (drain_gossip i st) = sp_applied_sync st"
  "sp_authorized_since (drain_gossip i st) = sp_authorized_since st"
  "sp_reconfirm_pending (drain_gossip i st) = sp_reconfirm_pending st"
  "sp_decided (drain_gossip i st) = sp_decided st"
proof -
  have "sp_applied_read_only (foldl receive_gossip st ms) = sp_applied_read_only st \<and>
      sp_applied_sync (foldl receive_gossip st ms) = sp_applied_sync st \<and>
      sp_authorized_since (foldl receive_gossip st ms) = sp_authorized_since st \<and>
      sp_reconfirm_pending (foldl receive_gossip st ms) = sp_reconfirm_pending st \<and>
      sp_decided (foldl receive_gossip st ms) = sp_decided st" for ms
    by (induction ms arbitrary: st) (simp_all add: receive_gossip_fields)
  then show "sp_applied_read_only (drain_gossip i st) = sp_applied_read_only st"
    "sp_applied_sync (drain_gossip i st) = sp_applied_sync st"
    "sp_authorized_since (drain_gossip i st) = sp_authorized_since st"
    "sp_reconfirm_pending (drain_gossip i st) = sp_reconfirm_pending st"
    "sp_decided (drain_gossip i st) = sp_decided st"
    by (simp_all add: drain_gossip_def)
qed

text \<open>The later phases of the preparation keep all of these.\<close>

definition same_authority :: "sup \<Rightarrow> sup \<Rightarrow> bool" where
  "same_authority st st' \<longleftrightarrow> sp_applied_read_only st' = sp_applied_read_only st \<and>
     sp_applied_sync st' = sp_applied_sync st \<and> sp_authorized_since st' = sp_authorized_since st \<and>
     sp_reconfirm_pending st' = sp_reconfirm_pending st \<and> sp_decided st' = sp_decided st"

lemma same_authority_trans: "same_authority a b \<Longrightarrow> same_authority b c \<Longrightarrow> same_authority a c"
  by (simp add: same_authority_def)

lemma phases_same_authority:
  "same_authority (fst c) (fst (gossip_phase cfg i c))"
  "same_authority (fst c) (fst (datadir_phase os cfg i c))"
  "same_authority (fst c) (fst (marker_phase i c))"
  "same_authority (fst c) (fst (leader_phase cfg i c))"
  by (cases c; simp add: same_authority_def gossip_phase_def datadir_phase_def marker_phase_def
      leader_phase_def Let_def split: prod.split sum.split option.split)+

lemma prepare_fields:
  assumes "prepare os cfg i (st, io) = (st1, io1)"
  shows "sp_applied_read_only st1 = (if stalled i st then None else sp_applied_read_only st)"
    and "sp_applied_sync st1 = sp_applied_sync st"
    and "sp_authorized_since st1 = (if stalled i st then None else sp_authorized_since st)"
    and "sp_reconfirm_pending st1 = ((sp_reconfirm_pending st \<or> stalled i st) \<and> \<not> adopts i st)"
    and "sp_decided st1 = (if adopts i st then i_current i else sp_decided st)"
proof -
  define st2 where "st2 = adopt_decision (i_current i) (drain_gossip i (detect_stall (i_loop_now i) st))"
  have "same_authority st2 st1"
    using assms phases_same_authority(1) [of "(st2, beat cfg (detect_stall (i_loop_now i) st) io)" cfg i]
    unfolding prepare_def st2_def [symmetric] Let_def prod.case
    by (metis (no_types, lifting) fst_conv phases_same_authority(2-4) same_authority_trans)
  moreover have "sp_applied_read_only st2 = (if stalled i st then None else sp_applied_read_only st)"
    "sp_applied_sync st2 = sp_applied_sync st"
    "sp_authorized_since st2 = (if stalled i st then None else sp_authorized_since st)"
    "sp_reconfirm_pending st2 = ((sp_reconfirm_pending st \<or> stalled i st) \<and> \<not> adopts i st)"
    "sp_decided st2 = (if adopts i st then i_current i else sp_decided st)"
    by (auto simp: st2_def adopt_decision_def drain_gossip_fields detect_stall_def stalled_def adopts_def
        map_or_def Let_def split: option.split)
  ultimately show
    "sp_applied_read_only st1 = (if stalled i st then None else sp_applied_read_only st)"
    "sp_applied_sync st1 = sp_applied_sync st"
    "sp_authorized_since st1 = (if stalled i st then None else sp_authorized_since st)"
    "sp_reconfirm_pending st1 = ((sp_reconfirm_pending st \<or> stalled i st) \<and> \<not> adopts i st)"
    "sp_decided st1 = (if adopts i st then i_current i else sp_decided st)"
    unfolding same_authority_def by simp_all
qed

text \<open>
  C18: A node with a decision that was suspended has to be confirmed again. An iteration that starts
  more than the stall threshold after the last one, or in which a confirmation is already pending,
  and that brings no different decision, on a node that has one, makes nothing writable, forgets
  since when the node was authorized and leaves the confirmation pending; right after the stall,
  out of recovery, it also sends the read-only statement. (A node without any decision is not held
  back: the authority it may have before the first decision does not depend on a confirmation.)
\<close>

theorem stall_revokes_authority:
  assumes "tick os cfg i (st, io) = (st', io')" "io_events io' = io_events io @ es"
    and "\<not> adopts i st" "sp_decided st = Some d" "stalled i st \<or> sp_reconfirm_pending st"
  shows "sp_reconfirm_pending st' \<and> sp_decided st' = Some d \<and> sp_authorized_since st' = None \<and>
    (\<forall>b. Sql (AlterReadOnly False) b \<notin> set es) \<and>
    (stalled i st \<and> \<not> i_in_recovery i \<longrightarrow> (\<exists>b. Sql (AlterReadOnly True) b \<in> set es))"
proof -
  obtain st1 io1 where p: "prepare os cfg i (st, io) = (st1, io1)" by fastforce
  have pend: "sp_reconfirm_pending st1" and dec: "sp_decided st1 = Some d"
    and ro: "stalled i st \<Longrightarrow> sp_applied_read_only st1 = None"
    using prepare_fields [OF p] assms(3-5) by auto
  show ?thesis
  proof (cases "i_in_recovery i")
    case True
    then show ?thesis
      using standby_no_unfence [OF assms(1) True assms(2)] tick_standby [OF assms(1) True p assms(2)] pend dec
      by auto
  next
    case False
    have raw: "\<not> raw_auth cfg (quorum_ok cfg (i_contact_now i) st1) st1"
      using pend dec by (simp add: raw_auth_def)
    have a: "authority cfg i st1 = False" using authority_raw raw by blast
    obtain pre f s u post where es: "es = pre @ f @ s @ u @ post" "calm pre" "calm post"
      and r: "role_events cfg False st1 st' f s u"
      and t: "sp_reconfirm_pending st' = sp_reconfirm_pending st1" "sp_decided st' = sp_decided st1"
        "sp_authorized_since st' = sp_authorized_since (snd (authorize cfg i (quorum_ok cfg (i_contact_now i) st1) st1))"
      using tick_primary [OF assms(1) False p assms(2)] unfolding a by blast
    have "\<forall>b. Sql (AlterReadOnly False) b \<notin> set es"
      using role_sql(1) [OF r] around_role [OF es(2,3)] unfolding es(1) by fastforce
    moreover have "\<exists>b. Sql (AlterReadOnly True) b \<in> set es" if "stalled i st"
    proof -
      have "\<exists>b. Sql (AlterReadOnly True) b \<in> set f"
        using r ro [OF that] sets_list_sql(2) unfolding role_events_def by fastforce
      then show ?thesis unfolding es(1) by auto
    qed
    ultimately show ?thesis using pend t dec raw by (simp add: authorize_def)
  qed
qed

theorem stall_revokes_authority_witness:
  "sp_reconfirm_pending (fst (tick (os_ex {}) cfg_ex tick_ex (sup_ex\<lparr>sp_last_loop := 0\<rparr>, io_ex)))"
  using stall_revokes_authority [OF run_ex(1) run_ex(2), of tick_ex "sup_ex\<lparr>sp_last_loop := 0\<rparr>"
      "\<lparr>dec_seq = 1, dec_primary = 1\<rparr>" "os_ex {}" cfg_ex]
  by (simp add: adopts_def stalled_def tick_ex_defs duration_since_def stall_threshold_def from_millis_def)

section \<open>When statements fail\<close>

text \<open>
  C36: A failed synchronous setting does not hold back the read-write statement: in an iteration
  with authority on a node not known to be writable, the statement is sent although every
  attempt to set the standby list in it failed, or none was made because nothing is decided
  yet; the supervisor knows then that the list is not what it wants.
\<close>

theorem failed_sync_does_not_hold_back_unfence:
  assumes "tick os cfg i (st, io) = (st', io')" "io_events io' = io_events io @ es"
    and "st1 = fst (prepare os cfg i (st, io))" "\<not> i_in_recovery i"
    and "authority cfg i st1" "sp_applied_read_only st1 \<noteq> Some False"
    and "cf_synchronous cfg" "sp_applied_sync st1 \<noteq> Some (cf_sync_target cfg)"
    and "\<forall>n. Sql (AlterSync n) True \<notin> set es"
  shows "(\<exists>b. Sql (AlterReadOnly False) b \<in> set es) \<and> sp_applied_sync st' \<noteq> Some (cf_sync_target cfg) \<and>
    (sp_decided st1 \<noteq> None \<longrightarrow> Sql (AlterSync (cf_sync_target cfg)) False \<in> set es)"
proof -
  obtain io1 where p: "prepare os cfg i (st, io) = (st1, io1)"
    using assms(3) by (cases "prepare os cfg i (st, io)") simp
  have a: "authority cfg i st1 = True" using assms(5) by simp
  obtain pre f s u post where es: "es = pre @ f @ s @ u @ post"
    and r: "role_events cfg True st1 st' f s u"
    using tick_primary [OF assms(1,4) p assms(2)] unfolding a by blast
  have "\<exists>b. Sql (AlterReadOnly False) b \<in> set u"
    using r assms(6) sets_list_sql(2) unfolding role_events_def by blast
  moreover have no: "Sql (AlterSync n) True \<notin> set s" for n using assms(9) es by simp
  have "sp_applied_sync st' = sp_applied_sync st1 \<and>
      (want_sync cfg True st1 \<noteq> None \<longrightarrow> sp_applied_sync st1 \<noteq> want_sync cfg True st1 \<longrightarrow>
        Sql (AlterSync (the (want_sync cfg True st1))) False \<in> set s)"
    using r no [of "the (want_sync cfg True st1)"] unfolding role_events_def
    by (auto simp: sets_list_def setting_events_def split: if_splits)
  moreover have "sp_decided st1 \<noteq> None \<Longrightarrow> want_sync cfg True st1 = Some (cf_sync_target cfg)"
    using assms(7) by (simp add: want_sync_def)
  ultimately show ?thesis using assms(8) es by auto
qed

theorem failed_sync_does_not_hold_back_unfence_witness:
  "let es = io_events (snd (tick (os_ex {0}) cfg_ex tick_ex (sup_ex, io_ex)))
   in (\<exists>b. Sql (AlterReadOnly False) b \<in> set es) \<and> Sql (AlterSync (cf_sync_target cfg_ex)) False \<in> set es"
proof -
  have phase: "io_events (snd (primary_phase (os_ex {0}) cfg_ex tick_ex True (sup_ex\<lparr>sp_ticks := 1\<rparr>, emit Heartbeat io_ex))) =
    [Heartbeat, Sql (AlterSync ''ANY 1 (node2, node3)'') False, Sql (AlterReadOnly False) True, Sql ReloadConf True]"
    by (simp add: primary_eval tick_ex_defs)
  have none: "\<forall>n. Sql (AlterSync n) True \<notin> set (io_events (snd (tick (os_ex {0}) cfg_ex tick_ex (sup_ex, io_ex))))"
    using tick_ex_events [of "os_ex {0}"] unfolding phase by auto
  have auth: "authority cfg_ex tick_ex (fst (prepare (os_ex {0}) cfg_ex tick_ex (sup_ex, io_ex)))"
    using quorum_ex unfolding prepare_ex
    by (simp add: authority_def authorize_def raw_auth_def confirm_window_def from_millis_def
        duration_since_def Let_def tick_ex_defs)
  show ?thesis
    using failed_sync_does_not_hold_back_unfence [OF run_ex(1) run_ex(2) refl _ auth _ _ _ none] plain_ex
    unfolding prepare_ex Let_def by (simp add: cfg_ex_def sup_ex_def init_sup_def)
qed

section \<open>Promotion and following\<close>

lemma occurs_once:
  "xs @ e # ys = as @ e # bs \<Longrightarrow> e \<notin> set as \<Longrightarrow> e \<notin> set bs \<Longrightarrow> xs = as \<and> ys = bs"
  by (metis append_Cons_eq_iff)

lemma clear_no_promote: "sets_list c (AlterSync x) es g \<Longrightarrow> Sql Promote b \<notin> set es"
  by (auto dest: sets_list_sql(1))

lemma primary_no_promote:
  assumes "tick os cfg i (st, io) = (st', io')" "\<not> i_in_recovery i" "io_events io' = io_events io @ es"
  shows "Sql Promote b \<notin> set es"
proof -
  obtain st1 io1 where p: "prepare os cfg i (st, io) = (st1, io1)" by fastforce
  obtain pre f s u post where es: "es = pre @ f @ s @ u @ post" "calm pre" "calm post"
    and r: "role_events cfg (authority cfg i st1) st1 st' f s u"
    using tick_primary [OF assms(1,2) p assms(3)] by blast
  have "Sql Promote b \<notin> set (f @ s @ u)"
    using r unfolding role_events_def by (auto dest: sets_list_sql(1))
  then show ?thesis using around_role [OF es(2,3), of "Sql Promote b" f s u] unfolding es(1) by simp
qed

text \<open>
  C19: Promotion happens exactly when it should: an iteration promotes iff the server is in
  recovery, the decided primary is this node, and no promotion was requested in the last 100
  iterations; it does so once, directly after asking for read-only mode and a reload (whether or
  not those two succeeded), and the promoted server starts out as not known to be fenced and
  without authority.
\<close>

theorem promotion_is_preceded_by_fencing:
  assumes "tick os cfg i (st, io) = (st', io')" "io_events io' = io_events io @ es"
    and "st1 = fst (prepare os cfg i (st, io))"
  shows "((\<exists>b. Sql Promote b \<in> set es) \<longleftrightarrow>
      i_in_recovery i \<and> decided_primary st1 = cf_node_id cfg \<and> promote_due st1) \<and>
    (\<forall>xs b ys. es = xs @ Sql Promote b # ys \<longrightarrow>
      (\<exists>zs b1 b2. xs = zs @ [Sql (AlterReadOnly True) b1, Sql ReloadConf b2]) \<and>
      (\<forall>b'. Sql Promote b' \<notin> set (xs @ ys)) \<and> sp_promoted st' = b \<and>
      sp_applied_read_only st' = None \<and> sp_authorized_since st' = None)"
proof (cases "i_in_recovery i")
  case False
  then have "\<And>b. Sql Promote b \<notin> set es" using primary_no_promote [OF assms(1) _ assms(2)] by blast
  moreover from this have "\<And>xs b ys. es \<noteq> xs @ Sql Promote b # ys" by (metis in_set_conv_decomp)
  ultimately show ?thesis using False by blast
next
  case True
  obtain io1 where p: "prepare os cfg i (st, io) = (st1, io1)"
    using assms(3) by (cases "prepare os cfg i (st, io)") simp
  obtain pre c q post gc where es: "es = pre @ c @ q @ post" "calm pre" "calm post"
    and c: "sets_list (sp_applied_sync st1 \<noteq> Some []) (AlterSync []) c gc"
    and q: "if decided_primary st1 = cf_node_id cfg
      then (if promote_due st1 then \<exists>b1 b2 b. q = promotion b1 b2 b \<and> sp_promoted st' = b else q = [])
      else \<exists>gp. sets_list (repoint_due cfg st1) (AlterConninfo (conninfo_of cfg)) q gp \<and>
        (gp \<longrightarrow> sp_applied_primary st' = decided_primary st1)"
    and st': "sp_applied_read_only st' = None" "sp_authorized_since st' = None"
    using tick_standby [OF assms(1) True p assms(2)] by blast
  have none: "Sql Promote b \<notin> set pre" "Sql Promote b \<notin> set post" "Sql Promote b \<notin> set c" for b
    using calm_no_change(4) es(2,3) clear_no_promote [OF c] by blast+
  show ?thesis
  proof (cases "decided_primary st1 = cf_node_id cfg \<and> promote_due st1")
    case True
    then obtain b1 b2 b where b: "q = promotion b1 b2 b" "sp_promoted st' = b" using q by auto
    have es': "es = (pre @ c @ [Sql (AlterReadOnly True) b1, Sql ReloadConf b2]) @ Sql Promote b # post"
      using es(1) b(1) by (simp add: promotion_def)
    have "xs = pre @ c @ [Sql (AlterReadOnly True) b1, Sql ReloadConf b2] \<and> ys = post \<and> b'' = b"
      if x: "es = xs @ Sql Promote b'' # ys" for xs b'' ys
    proof -
      have "Sql Promote b'' \<in> set es" using x by simp
      then have bb: "b'' = b" using none unfolding es' by auto
      have "xs @ Sql Promote b # ys =
          (pre @ c @ [Sql (AlterReadOnly True) b1, Sql ReloadConf b2]) @ Sql Promote b # post"
        using x unfolding es' bb by simp
      from occurs_once [OF this] show ?thesis using none bb by simp
    qed
    then show ?thesis using True \<open>i_in_recovery i\<close> es' b(2) st' none by fastforce
  next
    case False
    then have "Sql Promote b \<notin> set q" for b
      using q sets_list_sql(1) by (fastforce split: if_splits)
    then have "\<And>b. Sql Promote b \<notin> set es" using none es(1) by simp
    moreover from this have "\<And>xs b ys. es \<noteq> xs @ Sql Promote b # ys" by (metis in_set_conv_decomp)
    ultimately show ?thesis using False by blast
  qed
qed

theorem promotion_is_preceded_by_fencing_witness:
  "\<exists>b. Sql Promote b \<in> set (io_events (snd (tick (os_ex {}) cfg_ex (tick_ex\<lparr>i_in_recovery := True\<rparr>) (sup_ex, io_ex))))"
proof -
  let ?i = "tick_ex\<lparr>i_in_recovery := True\<rparr>"
  have p: "prepare os cfg_ex ?i (sup_ex, io) = (sup_ex\<lparr>sp_ticks := 1\<rparr>, emit Heartbeat io)" for os :: "nat os" and io
    by (rule prepare_quiet_ex) (simp_all add: sup_ex_def init_sup_def)
  show ?thesis
    using promotion_is_preceded_by_fencing [OF run_ex(1) run_ex(2) refl, of "os_ex {}" cfg_ex ?i sup_ex]
    unfolding p by (simp add: decided_primary_def promote_due_def sup_ex_def init_sup_def cfg_ex_def)
qed

text \<open>What the connection string of a standby lists.\<close>

lemma conninfo_lists:
  "\<exists>hosts ports. conninfo_of cfg = ''host='' @ join '','' hosts @ '' port='' @ join '','' ports @ '' user=replicator'' @
      (if t_passfile (cf_target cfg) = [] then [] else '' passfile='' @ t_passfile (cf_target cfg)) @
      '' target_session_attrs=read-write application_name=node'' @ show_u64 (cf_node_id cfg) \<and>
    length hosts = length ports \<and>
    set (zip hosts ports) = {split_host_port (p_addr m) |m. m \<in> set (cf_members cfg) \<and> p_id m \<noteq> cf_node_id cfg}"
proof -
  let ?addrs = "map (\<lambda>m. split_host_port (p_addr m)) (other_members (cf_node_id cfg) (cf_members cfg))"
  have "set (zip (map fst ?addrs) (map snd ?addrs)) = set ?addrs" by (simp only: zip_map_fst_snd)
  moreover have "set ?addrs = {split_host_port (p_addr m) |m. m \<in> set (cf_members cfg) \<and> p_id m \<noteq> cf_node_id cfg}"
    by (auto simp: other_members_def)
  ultimately show ?thesis
    by (intro exI [of _ "map fst ?addrs"] exI [of _ "map snd ?addrs"])
      (simp add: conninfo_of_def standby_conninfo_def Let_def del: zip_map_fst_snd)
qed

lemma member_addr_listed: "member_addr k ms = Some a \<Longrightarrow> \<exists>m \<in> set ms. p_id m = k \<and> p_addr m = a"
  by (induction ms) (auto simp: member_addr_def split: if_splits)

lemma member_addr_known: "member_addr k ms \<noteq> None \<longleftrightarrow> k \<in> p_id ` set ms"
  by (induction ms) (auto simp: member_addr_def)

text \<open>
  C38: A standby follows the decision: in recovery, a connection string is set if and only if
  another node is the decided primary, is a member with a known address and the standby has not
  been pointed at it since the decision. That string names exactly the addresses of the other
  members, the decided primary's among them, asks for the one of them that accepts writes and
  connects under the name of this node; once all statements of the iteration have succeeded the
  standby is recorded as following the decided primary. Its own standby list is cleared unless it is
  known to be empty.
\<close>

theorem standby_follows_the_decision:
  assumes "tick os cfg i (st, io) = (st', io')" "io_events io' = io_events io @ es"
    and "st1 = fst (prepare os cfg i (st, io))" "i_in_recovery i"
    and "decided_primary st1 \<noteq> cf_node_id cfg"
  shows "((\<exists>n b. Sql (AlterConninfo n) b \<in> set es) \<longleftrightarrow>
      decided_primary st1 \<noteq> 0 \<and> sp_applied_primary st1 \<noteq> decided_primary st1 \<and>
      decided_primary st1 \<in> p_id ` set (cf_members cfg)) \<and>
    (\<forall>n b. Sql (AlterConninfo n) b \<in> set es \<longrightarrow> (\<exists>hosts ports addr.
       n = ''host='' @ join '','' hosts @ '' port='' @ join '','' ports @ '' user=replicator'' @
         (if t_passfile (cf_target cfg) = [] then [] else '' passfile='' @ t_passfile (cf_target cfg)) @
         '' target_session_attrs=read-write application_name=node'' @ show_u64 (cf_node_id cfg) \<and>
       length hosts = length ports \<and>
       set (zip hosts ports) = {split_host_port (p_addr m) |m. m \<in> set (cf_members cfg) \<and> p_id m \<noteq> cf_node_id cfg} \<and>
       member_addr (decided_primary st1) (cf_members cfg) = Some addr \<and> split_host_port addr \<in> set (zip hosts ports))) \<and>
    ((\<exists>n b. Sql (AlterConninfo n) b \<in> set es) \<and> list_all (\<lambda>e. case e of Sql q b \<Rightarrow> b | _ \<Rightarrow> True) es \<longrightarrow>
       sp_applied_primary st' = decided_primary st1) \<and>
    ((\<exists>b. Sql (AlterSync []) b \<in> set es) \<longleftrightarrow> sp_applied_sync st1 \<noteq> Some [])"
proof -
  obtain io1 where p: "prepare os cfg i (st, io) = (st1, io1)"
    using assms(3) by (cases "prepare os cfg i (st, io)") simp
  obtain pre c q post gc gp where es: "es = pre @ c @ q @ post" "calm pre" "calm post"
    and c: "sets_list (sp_applied_sync st1 \<noteq> Some []) (AlterSync []) c gc"
    and q: "sets_list (repoint_due cfg st1) (AlterConninfo (conninfo_of cfg)) q gp"
      "gp \<longrightarrow> sp_applied_primary st' = decided_primary st1"
    using tick_standby [OF assms(1,4) p assms(2)] assms(5) by auto
  have none: "Sql (AlterConninfo n) b \<notin> set pre" "Sql (AlterConninfo n) b \<notin> set post"
    "Sql (AlterSync n) b \<notin> set pre" "Sql (AlterSync n) b \<notin> set post" for n b
    using calm_no_change es(2,3) by blast+
  have conn: "Sql (AlterConninfo n) b \<in> set es \<longleftrightarrow> Sql (AlterConninfo n) b \<in> set q" for n b
    using none sets_list_sql(1) [OF c, of "AlterConninfo n" b] unfolding es(1) by auto
  have sync: "Sql (AlterSync n) b \<in> set es \<longleftrightarrow> Sql (AlterSync n) b \<in> set c" for n b
    using none sets_list_sql(1) [OF q(1), of "AlterSync n" b] unfolding es(1) by auto
  have due: "(\<exists>n b. Sql (AlterConninfo n) b \<in> set es) \<longleftrightarrow> repoint_due cfg st1"
    unfolding conn using sets_list_sql(1) [OF q(1)] sets_list_sql(2) [OF q(1)] by blast
  have "gp" if "repoint_due cfg st1" "list_all (\<lambda>e. case e of Sql q b \<Rightarrow> b | _ \<Rightarrow> True) es"
    using that q(1) unfolding es(1) by (auto simp: sets_list_def setting_events_def)
  then have follows: "(\<exists>n b. Sql (AlterConninfo n) b \<in> set es) \<and> list_all (\<lambda>e. case e of Sql q b \<Rightarrow> b | _ \<Rightarrow> True) es \<longrightarrow>
      sp_applied_primary st' = decided_primary st1"
    using due q(2) by blast
  have cleared: "(\<exists>b. Sql (AlterSync []) b \<in> set es) \<longleftrightarrow> sp_applied_sync st1 \<noteq> Some []"
    unfolding sync using sets_list_sql(1) [OF c] sets_list_sql(2) [OF c] by blast
  obtain hosts ports where lists: "conninfo_of cfg = ''host='' @ join '','' hosts @ '' port='' @ join '','' ports @ '' user=replicator'' @
      (if t_passfile (cf_target cfg) = [] then [] else '' passfile='' @ t_passfile (cf_target cfg)) @
      '' target_session_attrs=read-write application_name=node'' @ show_u64 (cf_node_id cfg)"
    "length hosts = length ports"
    "set (zip hosts ports) = {split_host_port (p_addr m) |m. m \<in> set (cf_members cfg) \<and> p_id m \<noteq> cf_node_id cfg}"
    using conninfo_lists [of cfg] by blast
  have to: "\<exists>addr. n = conninfo_of cfg \<and> member_addr (decided_primary st1) (cf_members cfg) = Some addr \<and>
      split_host_port addr \<in> set (zip hosts ports)" if "Sql (AlterConninfo n) b \<in> set es" for n b
  proof -
    have n: "n = conninfo_of cfg" using that sets_list_sql(1) [OF q(1)] unfolding conn by blast
    have "repoint_due cfg st1" using that due by blast
    then obtain addr where addr: "member_addr (decided_primary st1) (cf_members cfg) = Some addr"
      by (auto simp: repoint_due_def)
    obtain m where "m \<in> set (cf_members cfg)" "p_id m = decided_primary st1" "p_addr m = addr"
      using member_addr_listed [OF addr] by blast
    then have "split_host_port addr \<in> set (zip hosts ports)" using assms(5) unfolding lists(3) by auto
    then show ?thesis using n addr by simp
  qed
  have named: "\<exists>hosts ports addr. n = ''host='' @ join '','' hosts @ '' port='' @ join '','' ports @ '' user=replicator'' @
      (if t_passfile (cf_target cfg) = [] then [] else '' passfile='' @ t_passfile (cf_target cfg)) @
      '' target_session_attrs=read-write application_name=node'' @ show_u64 (cf_node_id cfg) \<and>
    length hosts = length ports \<and>
    set (zip hosts ports) = {split_host_port (p_addr m) |m. m \<in> set (cf_members cfg) \<and> p_id m \<noteq> cf_node_id cfg} \<and>
    member_addr (decided_primary st1) (cf_members cfg) = Some addr \<and> split_host_port addr \<in> set (zip hosts ports)"
    if sent: "Sql (AlterConninfo n) b \<in> set es" for n b
  proof -
    obtain addr where "n = conninfo_of cfg" "member_addr (decided_primary st1) (cf_members cfg) = Some addr"
        "split_host_port addr \<in> set (zip hosts ports)"
      using to [OF sent] by blast
    then show ?thesis
      using lists by (intro exI [of _ hosts] exI [of _ ports] exI [of _ addr]) (simp only: simp_thms)
  qed
  show ?thesis
    using due [unfolded repoint_due_def member_addr_known] named follows cleared by simp
qed

theorem standby_follows_the_decision_witness:
  "\<exists>n b hosts ports. Sql (AlterConninfo n) b \<in> set (io_events (snd (tick (os_ex {}) cfg_ex (tick_ex\<lparr>i_in_recovery := True\<rparr>)
     (sup_ex\<lparr>sp_decided := Some \<lparr>dec_seq = 1, dec_primary = 2\<rparr>\<rparr>, io_ex)))) \<and>
     split_host_port ''b:5432'' \<in> set (zip hosts ports) \<and> (\<exists>rest. n = ''host='' @ join '','' hosts @ '' port='' @ join '','' ports @ rest)"
proof -
  let ?i = "tick_ex\<lparr>i_in_recovery := True\<rparr>"
  let ?st = "sup_ex\<lparr>sp_decided := Some \<lparr>dec_seq = 1, dec_primary = 2\<rparr>\<rparr>"
  have p: "prepare os cfg_ex ?i (?st, io) = (?st\<lparr>sp_ticks := 1\<rparr>, emit Heartbeat io)" for os :: "nat os" and io
    by (rule prepare_quiet_ex) (simp_all add: sup_ex_def init_sup_def)
  have primary: "decided_primary (?st\<lparr>sp_ticks := 1\<rparr>) = 2" "sp_applied_primary (?st\<lparr>sp_ticks := 1\<rparr>) = 0"
    by (simp_all add: decided_primary_def sup_ex_def init_sup_def)
  have cfg: "member_addr 2 (cf_members cfg_ex) = Some ''b:5432''" "2 \<in> p_id ` set (cf_members cfg_ex)" "cf_node_id cfg_ex = 1"
    by (simp_all add: cfg_ex_def member_addr_def)
  have rec: "i_in_recovery ?i" by simp
  have other: "decided_primary (?st\<lparr>sp_ticks := 1\<rparr>) \<noteq> cf_node_id cfg_ex" unfolding primary cfg by simp
  note follows = standby_follows_the_decision [where st = ?st and os = "os_ex {}" and cfg = cfg_ex and i = ?i,
      OF run_ex(1) run_ex(2) refl rec, unfolded p fst_conv, OF other, unfolded primary]
  have "(2 :: u64) \<noteq> 0 \<and> (0 :: u64) \<noteq> 2" by simp
  with follows cfg(2) obtain n b where sent: "Sql (AlterConninfo n) b \<in>
      set (io_events (snd (tick (os_ex {}) cfg_ex ?i (?st, io_ex))))"
    by blast
  from follows [THEN conjunct2, THEN conjunct1, rule_format, OF sent] obtain hosts ports addr rest
    where "n = ''host='' @ join '','' hosts @ '' port='' @ join '','' ports @ rest"
      "member_addr 2 (cf_members cfg_ex) = Some addr" "split_host_port addr \<in> set (zip hosts ports)"
    by (elim exE conjE) (rule that)
  then show ?thesis using sent unfolding cfg(1) option.inject by blast
qed

section \<open>The confirmation window\<close>

text \<open>The iterations of a run, each with the state its preparation ended in.\<close>

fun trail :: "'w os \<Rightarrow> sup_cfg \<Rightarrow> tick_in list \<Rightarrow> sup \<times> 'w io \<Rightarrow> (tick_in \<times> sup) list" where
  "trail os cfg [] c = []"
| "trail os cfg (i # is) c = (i, fst (prepare os cfg i c)) # trail os cfg is (tick os cfg i c)"

lemma trail_append: "trail os cfg (xs @ ys) c = trail os cfg xs c @ trail os cfg ys (run_ticks os cfg xs c)"
  by (induction xs arbitrary: c) (simp_all add: run_ticks_def)

lemma run_ticks_snoc: "run_ticks os cfg (xs @ [i]) c = tick os cfg i (run_ticks os cfg xs c)"
  by (simp add: run_ticks_def)

text \<open>The iteration holds raw authority on a server out of recovery.\<close>

definition holds :: "sup_cfg \<Rightarrow> tick_in \<times> sup \<Rightarrow> bool" where
  "holds cfg = (\<lambda>(i, st). \<not> i_in_recovery i \<and> raw_auth cfg (quorum_ok cfg (i_contact_now i) st) st)"

text \<open>What \<open>authorized_since\<close> means.\<close>

definition since_ok :: "sup_cfg \<Rightarrow> (tick_in \<times> sup) list \<Rightarrow> sup \<Rightarrow> bool" where
  "since_ok cfg tr st \<longleftrightarrow> (\<forall>t. sp_authorized_since st = Some t \<longrightarrow>
     (\<exists>k < length tr. i_auth_now (fst (tr ! k)) = t \<and> list_all (holds cfg) (drop k tr)))"

lemma authorize_since:
  "sp_authorized_since (snd (authorize cfg i q st)) = Some t \<Longrightarrow>
     raw_auth cfg q st \<and> (t = i_auth_now i \<or> sp_authorized_since st = Some t)"
  by (auto simp: authorize_def Let_def unwrap_or_def split: if_splits option.splits)

lemma since_tick:
  assumes "since_ok cfg tr st" "tick os cfg i (st, io) = (st', io')"
  shows "since_ok cfg (tr @ [(i, fst (prepare os cfg i (st, io)))]) st'"
proof -
  obtain st1 io1 where p: "prepare os cfg i (st, io) = (st1, io1)" by fastforce
  obtain es where es: "io_events io' = io_events io @ es" using events_extend [OF assms(2)] by blast
  let ?tr = "tr @ [(i, st1)]"
  have "\<exists>k < length ?tr. i_auth_now (fst (?tr ! k)) = t \<and> list_all (holds cfg) (drop k ?tr)"
    if t: "sp_authorized_since st' = Some t" for t
  proof (cases "i_in_recovery i")
    case True
    then show ?thesis using tick_standby [OF assms(2) True p es] t by auto
  next
    case False
    then have raw: "raw_auth cfg (quorum_ok cfg (i_contact_now i) st1) st1"
      and or: "t = i_auth_now i \<or> sp_authorized_since st1 = Some t"
      using tick_primary [OF assms(2) False p es] t authorize_since by metis+
    have h: "holds cfg (i, st1)" using False raw by (simp add: holds_def)
    show ?thesis
    proof (cases "t = i_auth_now i")
      case True
      then show ?thesis using h by (intro exI [of _ "length tr"]) simp
    next
      case False
      with or prepare_fields(3) [OF p] have "sp_authorized_since st = Some t" by (auto split: if_splits)
      then obtain k where "k < length tr" "i_auth_now (fst (tr ! k)) = t" "list_all (holds cfg) (drop k tr)"
        using assms(1) unfolding since_ok_def by blast
      then show ?thesis using h by (intro exI [of _ k]) (simp add: nth_append)
    qed
  qed
  then show ?thesis using p by (simp add: since_ok_def)
qed

lemma since_run: "since_ok cfg (trail os cfg is (init_sup cur now, io)) (fst (run_ticks os cfg is (init_sup cur now, io)))"
proof (induction "is" rule: rev_induct)
  case Nil
  then show ?case by (simp add: since_ok_def run_ticks_def init_sup_def)
next
  case (snoc i xs)
  let ?c = "run_ticks os cfg xs (init_sup cur now, io)"
  have "since_ok cfg (trail os cfg xs (init_sup cur now, io) @ [(i, fst (prepare os cfg i (fst ?c, snd ?c)))])
      (fst (tick os cfg i ?c))"
    using since_tick [OF snoc, of os i "snd ?c" "fst (tick os cfg i ?c)" "snd (tick os cfg i ?c)"] by simp
  then show ?case by (simp add: trail_append run_ticks_snoc)
qed


text \<open>A new supervisor of a decided primary whose confirmation window has passed.\<close>

definition decided_sup_ex :: sup where
  "decided_sup_ex = init_sup (Some \<lparr>dec_seq = 1, dec_primary = 1\<rparr>) now_ex"

definition confirmed_tick_ex :: tick_in where
  "confirmed_tick_ex = tick_ex\<lparr>i_msgs := [(2, [], now_ex, now_ex)], i_auth_now := 0\<rparr>"

definition confirmed_sup_ex :: sup where
  "confirmed_sup_ex = decided_sup_ex\<lparr>sp_last_heard := [(2, now_ex)], sp_ticks := 1\<rparr>"

lemmas confirmed_ex_defs = decided_sup_ex_def confirmed_tick_ex_def confirmed_sup_ex_def tick_ex_defs

lemma confirmed_prepare_ex:
  "prepare (os_ex {}) cfg_ex confirmed_tick_ex (decided_sup_ex, io_ex) =
     (confirmed_sup_ex, \<lparr>io_world = 1, io_events = [Heartbeat, Sql ShowDataDirectory True]\<rparr>)"
  by (simp add: prepare_eval confirmed_ex_defs)

lemma confirmed_quorum_ex: "quorum_ok cfg_ex (i_contact_now confirmed_tick_ex) confirmed_sup_ex"
  by (simp add: quorum_ok_def reachable_def duration_since_def quorum_lease_def from_millis_def confirmed_ex_defs)

lemma confirmed_phase_ex:
  "io_events (snd (primary_phase (os_ex {}) cfg_ex confirmed_tick_ex True
      (confirmed_sup_ex, \<lparr>io_world = 1, io_events = [Heartbeat, Sql ShowDataDirectory True]\<rparr>))) =
    [Heartbeat, Sql ShowDataDirectory True, Sql (CreateSlot 2) True, Sql (CreateSlot 3) True,
     Sql (AlterSync ''ANY 1 (node2, node3)'') True, Sql ReloadConf True,
     Sql (AlterReadOnly False) True, Sql ReloadConf True]"
  by (simp add: primary_eval confirmed_ex_defs)

lemma confirmed_events_ex:
  "\<exists>post. io_events (snd (tick (os_ex {}) cfg_ex confirmed_tick_ex (decided_sup_ex, io_ex))) =
    [Heartbeat, Sql ShowDataDirectory True, Sql (CreateSlot 2) True, Sql (CreateSlot 3) True,
     Sql (AlterSync ''ANY 1 (node2, node3)'') True, Sql ReloadConf True,
     Sql (AlterReadOnly False) True, Sql ReloadConf True] @ post \<and>
     (\<forall>q b. Sql q b \<notin> set post) \<and> (\<forall>cmd. SpawnRejoin cmd \<notin> set post)"
proof -
  have "\<not> i_in_recovery confirmed_tick_ex" by (simp add: confirmed_tick_ex_def tick_ex_def)
  from tick_plain [OF confirmed_prepare_ex confirmed_quorum_ex this] show ?thesis unfolding confirmed_phase_ex .
qed

text \<open>
  Two iterations of a new supervisor that hear one of two peers: the first adopts the decision for
  this node and fences, the second, one and a half seconds later, finds the window passed.
\<close>

definition adopt_tick_ex :: tick_in where
  "adopt_tick_ex = tick_ex\<lparr>i_msgs := [(2, [], now_ex, now_ex)], i_current := Some \<lparr>dec_seq = 1, dec_primary = 1\<rparr>\<rparr>"

definition later_ex :: instant where "later_ex = now_ex + 1500000000"

definition window_tick_ex :: tick_in where
  "window_tick_ex = adopt_tick_ex\<lparr>i_loop_now := later_ex, i_msgs := [(2, [], later_ex, later_ex)],
     i_contact_now := later_ex, i_auth_now := later_ex, i_auth_check := later_ex\<rparr>"

definition adopted_sup_ex :: sup where
  "adopted_sup_ex = decided_sup_ex\<lparr>sp_last_heard := [(2, now_ex)], sp_ticks := 1\<rparr>"

definition fenced_sup_ex :: "string \<Rightarrow> sup" where
  "fenced_sup_ex line = adopted_sup_ex\<lparr>sp_slots_ensured := True, sp_authorized_since := Some now_ex,
     sp_applied_read_only := Some True, sp_last := line\<rparr>"

lemmas window_ex_defs = adopt_tick_ex_def later_ex_def window_tick_ex_def adopted_sup_ex_def fenced_sup_ex_def
  decided_sup_ex_def tick_ex_defs

lemma adopt_prepare_ex:
  "prepare (os_ex {}) cfg_ex adopt_tick_ex (init_sup None now_ex, \<lparr>io_world = 0, io_events = es\<rparr>) =
     (adopted_sup_ex, \<lparr>io_world = 1, io_events = es @ [Heartbeat, Sql ShowDataDirectory True]\<rparr>)"
  by (simp add: prepare_eval window_ex_defs)

lemma adopt_phase_ex:
  "\<exists>line. primary_phase (os_ex {}) cfg_ex adopt_tick_ex True (adopted_sup_ex, \<lparr>io_world = 1, io_events = es\<rparr>) =
     (fenced_sup_ex line, \<lparr>io_world = 5, io_events = es @ [Sql (CreateSlot 2) True, Sql (CreateSlot 3) True,
        Sql (AlterReadOnly True) True, Sql ReloadConf True]\<rparr>)"
  by (simp add: primary_eval window_ex_defs)

lemma report_run:
  "\<exists>line post. report cfg i q (st, io) = (st\<lparr>sp_last := line\<rparr>, \<lparr>io_world = io_world io, io_events = io_events io @ post\<rparr>) \<and>
     (\<forall>q b. Sql q b \<notin> set post)"
proof (cases "status_snapshot cfg i q st = sp_last st")
  case True
  then show ?thesis by (intro exI [of _ "sp_last st"] exI [of _ "[]"]) (simp add: report_def Let_def)
next
  case False
  then show ?thesis
    by (intro exI [of _ "status_snapshot cfg i q st"] exI [of _ "[StatusLine (status_snapshot cfg i q st)]"])
      (simp add: report_def emit_def Let_def)
qed

lemma adopt_tick_run:
  "\<exists>line post. tick (os_ex {}) cfg_ex adopt_tick_ex (init_sup None now_ex, \<lparr>io_world = 0, io_events = es\<rparr>) =
     (fenced_sup_ex line, \<lparr>io_world = 5, io_events = es @ post\<rparr>) \<and> Sql (AlterReadOnly False) True \<notin> set post"
proof -
  let ?new = "[Heartbeat, Sql ShowDataDirectory True, Sql (CreateSlot 2) True, Sql (CreateSlot 3) True,
    Sql (AlterReadOnly True) True, Sql ReloadConf True]"
  let ?io = "\<lparr>io_world = 5 :: nat, io_events = es @ ?new\<rparr>"
  have now: "\<not> i_in_recovery adopt_tick_ex" "quorum_ok cfg_ex (i_contact_now adopt_tick_ex) adopted_sup_ex"
    by (simp_all add: quorum_ok_def reachable_def duration_since_def quorum_lease_def from_millis_def window_ex_defs)
  obtain line where "primary_phase (os_ex {}) cfg_ex adopt_tick_ex True
      (adopted_sup_ex, \<lparr>io_world = 1, io_events = es @ [Heartbeat, Sql ShowDataDirectory True]\<rparr>) =
     (fenced_sup_ex line, ?io)"
    using adopt_phase_ex [of "es @ [Heartbeat, Sql ShowDataDirectory True]"] by auto
  then have "tick (os_ex {}) cfg_ex adopt_tick_ex (init_sup None now_ex, \<lparr>io_world = 0, io_events = es\<rparr>) =
      report cfg_ex adopt_tick_ex True (fenced_sup_ex line, ?io)"
    using now by (simp add: tick_def Let_def adopt_prepare_ex)
  moreover obtain line' post where "report cfg_ex adopt_tick_ex True (fenced_sup_ex line, ?io) =
      ((fenced_sup_ex line)\<lparr>sp_last := line'\<rparr>, \<lparr>io_world = 5, io_events = (es @ ?new) @ post\<rparr>)" "\<forall>q b. Sql q b \<notin> set post"
    using report_run [of cfg_ex adopt_tick_ex True "fenced_sup_ex line" ?io] by auto
  ultimately show ?thesis
    by (intro exI [of _ line'] exI [of _ "?new @ post"]) (simp add: fenced_sup_ex_def)
qed

lemma window_prepare_ex:
  "prepare (os_ex {}) cfg_ex window_tick_ex (fenced_sup_ex line, \<lparr>io_world = 5, io_events = es\<rparr>) =
     ((fenced_sup_ex line)\<lparr>sp_last_heard := [(2, later_ex)], sp_ticks := 2, sp_last_loop := later_ex\<rparr>,
      \<lparr>io_world = 5, io_events = es @ [Heartbeat]\<rparr>)"
  by (simp add: prepare_eval stall_threshold_def from_millis_def window_ex_defs)

lemma window_unfences_ex:
  "Sql (AlterReadOnly False) True \<in> set (io_events (snd (tick (os_ex {}) cfg_ex window_tick_ex
     (fenced_sup_ex line, \<lparr>io_world = 5, io_events = es\<rparr>))))"
proof -
  let ?st = "(fenced_sup_ex line)\<lparr>sp_last_heard := [(2, later_ex)], sp_ticks := 2, sp_last_loop := later_ex\<rparr>"
  have q: "quorum_ok cfg_ex (i_contact_now window_tick_ex) ?st" and now: "\<not> i_in_recovery window_tick_ex"
    by (simp_all add: quorum_ok_def reachable_def duration_since_def quorum_lease_def from_millis_def window_ex_defs)
  have "Sql (AlterReadOnly False) True \<in> set (io_events (snd (primary_phase (os_ex {}) cfg_ex window_tick_ex True
      (?st, \<lparr>io_world = 5, io_events = es @ [Heartbeat]\<rparr>))))"
    by (simp add: primary_eval window_ex_defs)
  then show ?thesis using tick_plain [OF window_prepare_ex q now, of es] by auto
qed


end
