(* ===== verification/Leader.thy ===== *)
theory Leader
  imports SupervisorSafety
begin

text \<open>
  What the supervisor knows of its peers and what a Raft leader proposes from it: the maps it
  keeps stay well formed, its quorum test counts distinct voters, and its proposals are
  determined by the set of live members, not by the order of a hash map.
\<close>

section \<open>The maps\<close>

definition maps_ok :: "sup_cfg \<Rightarrow> sup \<Rightarrow> bool" where
  "maps_ok cfg st \<longleftrightarrow>
     hm_ok (sp_peers_lsn st) \<and> fst ` set (sp_peers_lsn st) \<subseteq> insert (cf_node_id cfg) (set (cf_voters cfg)) \<and>
     hm_ok (sp_last_heard st) \<and> fst ` set (sp_last_heard st) \<subseteq> set (cf_voters cfg) \<and>
     hm_ok (sp_peers_reconfirm st) \<and> fst ` set (sp_peers_reconfirm st) \<subseteq> set (cf_voters cfg) \<and>
     hm_ok (sp_peers_seq st) \<and> fst ` set (sp_peers_seq st) \<subseteq> set (cf_voters cfg)"

text \<open>The gossip of an iteration comes from voters, as the server side of the transport checks.\<close>

definition voter_msgs :: "sup_cfg \<Rightarrow> tick_in \<Rightarrow> bool" where
  "voter_msgs cfg i \<longleftrightarrow> list_all (\<lambda>(from, _). from \<in> set (cf_voters cfg)) (i_msgs i)"

definition same_maps :: "sup \<Rightarrow> sup \<Rightarrow> bool" where
  "same_maps st st' \<longleftrightarrow> sp_peers_lsn st' = sp_peers_lsn st \<and> sp_last_heard st' = sp_last_heard st \<and>
     sp_peers_reconfirm st' = sp_peers_reconfirm st \<and> sp_peers_seq st' = sp_peers_seq st"

lemma maps_ok_same: "same_maps st st' \<Longrightarrow> maps_ok cfg st' \<longleftrightarrow> maps_ok cfg st"
  by (simp add: same_maps_def maps_ok_def)

lemma same_maps_refl: "same_maps st st"
  by (simp add: same_maps_def)

lemma same_maps_trans: "same_maps a b \<Longrightarrow> same_maps b c \<Longrightarrow> same_maps a c"
  by (simp add: same_maps_def)

lemma receive_gossip_ok:
  "maps_ok cfg st \<Longrightarrow> fst m \<in> set (cf_voters cfg) \<Longrightarrow> maps_ok cfg (receive_gossip st m)"
  by (auto simp: maps_ok_def receive_gossip_def Let_def split: prod.split option.split)

lemma drain_gossip_ok: "maps_ok cfg st \<Longrightarrow> voter_msgs cfg i \<Longrightarrow> maps_ok cfg (drain_gossip i st)"
proof -
  have "maps_ok cfg st \<Longrightarrow> list_all (\<lambda>(from, _). from \<in> set (cf_voters cfg)) ms \<Longrightarrow>
      maps_ok cfg (foldl receive_gossip st ms)" for ms
    by (induction ms arbitrary: st) (auto simp: receive_gossip_ok)
  then show "maps_ok cfg st \<Longrightarrow> voter_msgs cfg i \<Longrightarrow> maps_ok cfg (drain_gossip i st)"
    by (simp add: drain_gossip_def voter_msgs_def)
qed

lemma gossip_phase_ok: "maps_ok cfg (fst c) \<Longrightarrow> maps_ok cfg (fst (gossip_phase cfg i c))"
  by (cases c) (auto simp: maps_ok_def gossip_phase_def Let_def)

lemma other_phases_same_maps:
  "same_maps st (detect_stall now st)" "same_maps st (adopt_decision cur st)"
  "same_maps (fst c) (fst (datadir_phase os cfg i c))"
  "same_maps (fst c) (fst (marker_phase i c))"
  "same_maps (fst c) (fst (leader_phase cfg i c))"
  "same_maps (fst c) (fst (ensure_slots os cfg c))"
  "same_maps st (snd (authorize cfg i q st))"
  "same_maps (fst c) (fst (clear_sync os cfg c))"
  "same_maps (fst c) (fst (promote os cfg c))"
  "same_maps (fst c) (fst (repoint os cfg c))"
  "same_maps (fst c) (fst (fence os cfg a c))"
  "same_maps (fst c) (fst (configure_sync os cfg want c))"
  "same_maps (fst c) (fst (unfence os cfg a c))"
  "same_maps (fst c) (fst (rejoin os cfg a c))"
  "same_maps (fst c) (fst (report cfg i q c))"
  by (cases c; simp add: same_maps_def detect_stall_def adopt_decision_def datadir_phase_def
      marker_phase_def leader_phase_def ensure_slots_def authorize_def clear_sync_def promote_def
      repoint_def fence_def configure_sync_def unfence_def rejoin_def report_def Let_def
      split: prod.split sum.split option.split)+

lemma prepare_ok:
  "maps_ok cfg (fst c) \<Longrightarrow> voter_msgs cfg i \<Longrightarrow> maps_ok cfg (fst (prepare os cfg i c))"
  by (cases c) (simp add: prepare_def Let_def maps_ok_same [OF other_phases_same_maps(5)]
      maps_ok_same [OF other_phases_same_maps(4)] maps_ok_same [OF other_phases_same_maps(3)]
      gossip_phase_ok maps_ok_same [OF other_phases_same_maps(2)] drain_gossip_ok
      maps_ok_same [OF other_phases_same_maps(1)])

lemma role_same_maps:
  "same_maps (fst c) (fst (primary_phase os cfg i q c))"
  "same_maps (fst c) (fst (standby_phase os cfg c))"
proof -
  show "same_maps (fst c) (fst (primary_phase os cfg i q c))"
    unfolding primary_phase_def Let_def case_prod_unfold
    by (intro same_maps_trans [OF _ other_phases_same_maps(14)]
        same_maps_trans [OF _ other_phases_same_maps(13)]
        same_maps_trans [OF _ other_phases_same_maps(12)]
        same_maps_trans [OF _ other_phases_same_maps(11)])
      (simp add: same_maps_trans [OF other_phases_same_maps(6) other_phases_same_maps(7)])
  have "same_maps (fst c) (fst c\<lparr>sp_applied_read_only := None, sp_authorized_since := None\<rparr>)"
    by (simp add: same_maps_def)
  then have "same_maps (fst c) (fst (clear_sync os cfg
      (fst c\<lparr>sp_applied_read_only := None, sp_authorized_since := None\<rparr>, snd c)))"
    using same_maps_trans other_phases_same_maps(8) by (metis fst_conv)
  then show "same_maps (fst c) (fst (standby_phase os cfg c))"
    unfolding standby_phase_def Let_def case_prod_unfold
    using same_maps_trans other_phases_same_maps(9,10) by (metis (mono_tags, lifting))
qed

lemma tick_ok:
  "maps_ok cfg (fst c) \<Longrightarrow> voter_msgs cfg i \<Longrightarrow> maps_ok cfg (fst (tick os cfg i c))"
  using prepare_ok [of cfg c i os]
  by (simp add: tick_def Let_def maps_ok_same [OF other_phases_same_maps(15)]
      maps_ok_same [OF role_same_maps(1)] maps_ok_same [OF role_same_maps(2)])

lemma run_ok:
  "list_all (voter_msgs cfg) is \<Longrightarrow> maps_ok cfg (fst c) \<Longrightarrow> maps_ok cfg (fst (run_ticks os cfg is c))"
  by (induction "is" arbitrary: c) (simp_all add: run_ticks_def tick_ok)

lemma init_ok: "maps_ok cfg (init_sup cur now)"
  by (simp add: maps_ok_def init_sup_def)

section \<open>Proposals\<close>

definition proposals :: "event list \<Rightarrow> decision list" where
  "proposals es = List.map_filter (\<lambda>e. case e of Propose d \<Rightarrow> Some d | _ \<Rightarrow> None) es"

lemma proposals_simps [simp]:
  "proposals [] = []" "proposals (xs @ ys) = proposals xs @ proposals ys"
  "proposals (e # es) = (case e of Propose d \<Rightarrow> [d] | _ \<Rightarrow> []) @ proposals es"
  by (simp_all add: proposals_def map_filter_def split: event.split)

lemma proposals_mem: "d \<in> set (proposals es) \<longleftrightarrow> Propose d \<in> set es"
  by (induction es) (auto split: event.split)

lemma proposals_filter: "proposals (filter (\<lambda>e. \<exists>d. e = Propose d) es) = proposals es"
  by (induction es) (auto split: event.split)

text \<open>
  A kind of event that only some phases emit: none of the statements, and nothing the other
  phases do. Its events pass through those phases unchanged.
\<close>

locale event_kind =
  fixes p :: "event \<Rightarrow> bool"
  assumes not_sql: "\<not> p (Sql q b)"
    and not_other: "\<not> p Heartbeat" "\<not> p (SpawnWatchdog cmd)" "\<not> p (GossipOut k bs)" "\<not> p (WriteMarker s)"
      "\<not> p (StatusLine s)"
begin

lemma run_sql_picked: "filter p (io_events (snd (run_sql os cfg q io))) = filter p (io_events io)"
  by (simp add: run_sql_def Let_def not_sql split: prod.split)

lemma apply_setting_picked: "filter p (io_events (snd (apply_setting os cfg q io))) = filter p (io_events io)"
proof -
  obtain r io1 where q: "run_sql os cfg q io = (r, io1)" by fastforce
  then have "filter p (io_events io1) = filter p (io_events io)" using run_sql_picked [of os cfg q io] by simp
  then show ?thesis
    using run_sql_picked [of os cfg ReloadConf io1]
    by (simp add: apply_setting_def q Let_def case_prod_unfold)
qed

lemma slots_picked:
  "filter p (io_events (foldl (\<lambda>x m. snd (run_sql os cfg (CreateSlot (p_id m)) x)) io ms)) = filter p (io_events io)"
  by (induction ms arbitrary: io) (simp_all add: run_sql_picked)

lemma phases_picked:
  "filter p (io_events (snd (ensure_slots os cfg c))) = filter p (io_events (snd c))"
  "filter p (io_events (snd (fence os cfg a c))) = filter p (io_events (snd c))"
  "filter p (io_events (snd (configure_sync os cfg want c))) = filter p (io_events (snd c))"
  "filter p (io_events (snd (unfence os cfg a c))) = filter p (io_events (snd c))"
  "filter p (io_events (snd (clear_sync os cfg c))) = filter p (io_events (snd c))"
  "filter p (io_events (snd (promote os cfg c))) = filter p (io_events (snd c))"
  "filter p (io_events (snd (repoint os cfg c))) = filter p (io_events (snd c))"
  "filter p (io_events (snd (report cfg i q c))) = filter p (io_events (snd c))"
  "filter p (io_events (snd (gossip_phase cfg i c))) = filter p (io_events (snd c))"
  "filter p (io_events (snd (datadir_phase os cfg i c))) = filter p (io_events (snd c))"
  "filter p (io_events (snd (marker_phase i c))) = filter p (io_events (snd c))"
proof -
  obtain st io where c: "c = (st, io)" by (cases c)
  show "filter p (io_events (snd (ensure_slots os cfg c))) = filter p (io_events (snd c))"
    "filter p (io_events (snd (gossip_phase cfg i c))) = filter p (io_events (snd c))"
    "filter p (io_events (snd (marker_phase i c))) = filter p (io_events (snd c))"
    "filter p (io_events (snd (report cfg i q c))) = filter p (io_events (snd c))"
    by (simp_all add: c ensure_slots_def gossip_phase_def marker_phase_def report_def Let_def
        slots_picked not_other split: option.split)
  show "filter p (io_events (snd (fence os cfg a c))) = filter p (io_events (snd c))"
    "filter p (io_events (snd (configure_sync os cfg want c))) = filter p (io_events (snd c))"
    "filter p (io_events (snd (unfence os cfg a c))) = filter p (io_events (snd c))"
    "filter p (io_events (snd (clear_sync os cfg c))) = filter p (io_events (snd c))"
    "filter p (io_events (snd (repoint os cfg c))) = filter p (io_events (snd c))"
    by (simp_all add: c fence_def configure_sync_def unfence_def clear_sync_def repoint_def Let_def
        case_prod_unfold apply_setting_picked split: option.split)
  show "filter p (io_events (snd (datadir_phase os cfg i c))) = filter p (io_events (snd c))"
    using run_sql_picked [of os cfg ShowDataDirectory io]
    by (simp add: c datadir_phase_def case_prod_unfold Let_def split: sum.split)
  show "filter p (io_events (snd (promote os cfg c))) = filter p (io_events (snd c))"
  proof -
    obtain st' io' where p: "promote os cfg (st, io) = (st', io')" by fastforce
    from promote_shape [OF p] show ?thesis by (auto simp: c p promotion_def not_sql split: if_splits)
  qed
qed

lemma rejoin_picked:
  assumes "cf_rejoin_script cfg = [] \<or> (\<forall>cmd. \<not> p (SpawnRejoin cmd))"
  shows "filter p (io_events (snd (rejoin os cfg a c))) = filter p (io_events (snd c))"
  using assms run_sql_picked [of os cfg ShowDataDirectory "snd c"]
  by (cases c) (auto simp: rejoin_def Let_def case_prod_unfold split: option.split)

lemma beat_picked: "filter p (io_events (beat cfg st io)) = filter p (io_events io)"
  by (simp add: beat_def Let_def not_other)

lemma tick_picked:
  assumes "cf_rejoin_script cfg = [] \<or> (\<forall>cmd. \<not> p (SpawnRejoin cmd))"
  shows "filter p (io_events (snd (tick os cfg i c))) = filter p (io_events (snd (prepare os cfg i c)))"
  by (simp add: tick_def Let_def phases_picked rejoin_picked [OF assms] primary_phase_def standby_phase_def
      case_prod_unfold)

end

interpretation proposing: event_kind "\<lambda>e. \<exists>d. e = Propose d"
  by unfold_locales simp_all

interpretation rejoins: event_kind "\<lambda>e. \<exists>cmd. e = SpawnRejoin cmd"
  by unfold_locales simp_all

lemma tick_proposals:
  "proposals (io_events (snd (tick os cfg i c))) = proposals (io_events (snd (prepare os cfg i c)))"
  using proposing.tick_picked [of cfg os i c] by (metis event.distinct proposals_filter)

text \<open>What the leader phase works on: the state after the phases before it.\<close>

definition before_leader :: "'w os \<Rightarrow> sup_cfg \<Rightarrow> tick_in \<Rightarrow> sup \<times> 'w io \<Rightarrow> sup \<times> 'w io" where
  "before_leader os cfg i = (\<lambda>(st, io).
     marker_phase i (datadir_phase os cfg i (gossip_phase cfg i
       (adopt_decision (i_current i) (drain_gossip i (detect_stall (i_loop_now i) st)),
        beat cfg (detect_stall (i_loop_now i) st) io))))"

lemma prepare_leader: "prepare os cfg i c = leader_phase cfg i (before_leader os cfg i c)"
  by (simp add: prepare_def before_leader_def Let_def case_prod_unfold)

lemma before_leader_proposals:
  "proposals (io_events (snd (before_leader os cfg i c))) = proposals (io_events (snd c))"
proof -
  have "filter (\<lambda>e. \<exists>d. e = Propose d) (io_events (snd (before_leader os cfg i c))) =
      filter (\<lambda>e. \<exists>d. e = Propose d) (io_events (snd c))"
    by (simp add: before_leader_def case_prod_unfold proposing.phases_picked proposing.beat_picked)
  then show ?thesis by (metis proposals_filter)
qed

text \<open>Without a rejoin script none is started.\<close>

lemma tick_no_rejoin:
  assumes "cf_rejoin_script cfg = []" "io_events (snd (tick os cfg i c)) = io_events (snd c) @ es"
  shows "SpawnRejoin cmd \<notin> set es"
proof -
  let ?p = "\<lambda>e. \<exists>cmd. e = SpawnRejoin cmd"
  have "filter ?p (io_events (snd (leader_phase cfg i c'))) = filter ?p (io_events (snd c'))" for c' :: "sup \<times> 'a io"
    by (cases c') (simp add: leader_phase_def Let_def split: option.split)
  then have "filter ?p (io_events (snd (tick os cfg i c))) = filter ?p (io_events (snd c))"
    using assms(1) by (simp add: rejoins.tick_picked prepare_leader before_leader_def case_prod_unfold
        rejoins.phases_picked rejoins.beat_picked)
  then have "filter ?p es = []" unfolding assms(2) by simp
  then show ?thesis by (auto simp: filter_empty_conv)
qed

lemma min_id_mem: "min_id xs = Some m \<Longrightarrow> m \<in> set xs \<and> (\<forall>x \<in> set xs. m \<le> x)"
proof -
  have "foldl min y ys \<in> insert y (set ys) \<and> (\<forall>x \<in> insert y (set ys). foldl min y ys \<le> x)"
    for y :: u64 and ys
  proof (induction ys arbitrary: y)
    case (Cons z zs)
    have "min y z \<le> y" "min y z \<le> z" "min y z \<in> {y, z}" by (auto simp: min_def)
    then show ?case using Cons.IH [of "min y z"] by (auto intro: order_trans)
  qed simp
  then show "min_id xs = Some m \<Longrightarrow> m \<in> set xs \<and> (\<forall>x \<in> set xs. m \<le> x)"
    by (auto simp: min_id_def split: list.splits)
qed

lemma min_id_set_eq: "set xs = set ys \<Longrightarrow> min_id xs = min_id ys"
proof -
  assume eq: "set xs = set ys"
  show ?thesis
  proof (cases "min_id xs")
    case None
    then have "xs = []" by (simp add: min_id_def split: list.splits)
    then show ?thesis using eq by simp
  next
    case (Some m)
    then obtain n where n: "min_id ys = Some n"
      using eq by (cases ys) (auto simp: min_id_def)
    have "m = n" using min_id_mem [OF Some] min_id_mem [OF n] eq by (simp add: order_antisym)
    then show ?thesis using Some n by simp
  qed
qed

lemma fst_probed_lsn [simp]: "fst (probed_lsn cfg probe c) = fst c"
  by (simp add: probed_lsn_def split: prod.split)

text \<open>A proposed candidate is a live member, and a live decided primary is only ever confirmed.\<close>

lemma leader_candidate_live:
  assumes "leader_candidate cfg i st = Some k"
  shows "k \<in> fst ` set (live_members cfg (i_leader_now i) st)"
    and "sp_decided st \<noteq> None \<Longrightarrow> decided_primary st \<noteq> 0 \<Longrightarrow>
      decided_primary st \<in> fst ` set (live_members cfg (i_leader_now i) st) \<Longrightarrow> k = decided_primary st"
proof -
  let ?live = "live_members cfg (i_leader_now i) st"
  have "list_ex (\<lambda>c. fst c = x) ?live \<longleftrightarrow> x \<in> fst ` set ?live" for x
    by (auto simp: list_ex_iff)
  note ex = this
  have chosen: "choose_primary (map (probed_lsn cfg p) ?live) = Some k \<Longrightarrow> k \<in> fst ` set ?live" for p
  proof -
    assume "choose_primary (map (probed_lsn cfg p) ?live) = Some k"
    then obtain c where "max_by cmp_candidate (map (probed_lsn cfg p) ?live) = Some c" "fst c = k"
      by (auto simp: choose_primary_def)
    from cand.max_by_in [OF this(1)] this(2) show "k \<in> fst ` set ?live" by force
  qed
  show "k \<in> fst ` set ?live"
    using assms chosen unfolding leader_candidate_def Let_def ex
    by (auto split: if_splits dest!: min_id_mem)
  show "k = decided_primary st"
    if "sp_decided st \<noteq> None" "decided_primary st \<noteq> 0" "decided_primary st \<in> fst ` set ?live"
    using assms that unfolding leader_candidate_def Let_def ex by (auto split: if_splits)
qed

text \<open>
  C9: What a node proposes: at most one decision per iteration, only as Raft leader and with a
  majority of members live, with the number after the decided one; the proposed primary is a
  live member, and a decided primary that is live is never replaced; and a proposal with the
  same number is repeated only after 20 iterations.
\<close>

theorem leader_proposes_one_successor:
  assumes "tick os cfg i (st, io) = (st', io')" "io_events io' = io_events io @ es"
    and "Propose d \<in> set es" "pre = fst (before_leader os cfg i (st, io))"
  shows "proposals es = [d] \<and> is_leader (i_leads i) \<and>
    cf_majority cfg \<le> length (live_members cfg (i_leader_now i) pre) \<and>
    dec_seq d = decided_seq pre + 1 \<and>
    dec_primary d \<in> fst ` set (live_members cfg (i_leader_now i) pre) \<and>
    (sp_decided pre \<noteq> None \<and> decided_primary pre \<noteq> 0 \<and>
      decided_primary pre \<in> fst ` set (live_members cfg (i_leader_now i) pre) \<longrightarrow>
        dec_primary d = decided_primary pre) \<and>
    (fst (sp_last_proposed pre) = dec_seq d \<longrightarrow>
      20 \<le> saturating_sub (sp_ticks pre) (sp_last_proposed_tick pre))"
proof -
  let ?b = "before_leader os cfg i (st, io)"
  have es: "proposals (io_events io) @ proposals es = proposals (io_events (snd (leader_phase cfg i ?b)))"
    using tick_proposals [of os cfg i "(st, io)"] assms(1,2) by (simp add: prepare_leader)
  have mem: "d \<in> set (proposals es)"
    using assms(3) by (simp add: proposals_mem)
  obtain io1 where b: "?b = (pre, io1)" using assms(4) by (cases ?b) simp
  have io1: "proposals (io_events io1) = proposals (io_events io)"
    using before_leader_proposals [of os cfg i "(st, io)"] b by simp
  have "\<exists>k. leader_candidate cfg i pre = Some k \<and> is_leader (i_leads i) \<and>
      cf_majority cfg \<le> length (live_members cfg (i_leader_now i) pre) \<and>
      \<not> (fst (sp_last_proposed pre) = decided_seq pre + 1 \<and>
          saturating_sub (sp_ticks pre) (sp_last_proposed_tick pre) < 20) \<and>
      proposals es = [\<lparr>dec_seq = decided_seq pre + 1, dec_primary = k\<rparr>]"
    using es mem unfolding b leader_phase_def prod.case
    by (cases "leader_candidate cfg i pre") (auto simp: io1 Let_def split: if_splits)
  then obtain k where k: "leader_candidate cfg i pre = Some k" "is_leader (i_leads i)"
      "cf_majority cfg \<le> length (live_members cfg (i_leader_now i) pre)"
      "\<not> (fst (sp_last_proposed pre) = decided_seq pre + 1 \<and>
          saturating_sub (sp_ticks pre) (sp_last_proposed_tick pre) < 20)"
      "proposals es = [\<lparr>dec_seq = decided_seq pre + 1, dec_primary = k\<rparr>]"
    by blast
  have d: "d = \<lparr>dec_seq = decided_seq pre + 1, dec_primary = k\<rparr>" using mem k(5) by simp
  show ?thesis
    using k leader_candidate_live [OF k(1)] unfolding d by (auto simp: not_less)
qed

text \<open>A leader that knows of a live standby and waits for a confirmation, in one iteration.\<close>

definition leader_tick_ex :: tick_in where
  "leader_tick_ex = tick_ex\<lparr>i_leads := \<lparr>mt_state = Leader, mt_term = 1, mt_leader = Some 1\<rparr>\<rparr>"

definition leader_sup_ex :: sup where
  "leader_sup_ex = sup_ex\<lparr>sp_peers_lsn := [(1, 7, False, now_ex), (2, 5, True, now_ex)],
     sp_reconfirm_pending := True\<rparr>"

lemma before_leader_ex:
  "before_leader os cfg_ex leader_tick_ex (leader_sup_ex, io) = (leader_sup_ex\<lparr>sp_ticks := 1\<rparr>, emit Heartbeat io)"
  by (simp add: before_leader_def beat_def drain_gossip_def adopt_decision_def gossip_phase_def
      datadir_phase_def marker_phase_def detect_stall_def gossip_every_def Let_def leader_tick_ex_def
      leader_sup_ex_def stall_threshold_def from_millis_def duration_since_def tick_ex_defs)

lemma live_members_ex:
  "live_members cfg_ex (i_leader_now leader_tick_ex) (leader_sup_ex\<lparr>sp_ticks := 1\<rparr>) = [(1, 7, False), (2, 5, True)]"
  by (simp add: live_members_def leader_tick_ex_def leader_sup_ex_def duration_since_def dead_timeout_def
      from_millis_def tick_ex_defs)

lemma leader_candidate_ex: "leader_candidate cfg_ex leader_tick_ex (leader_sup_ex\<lparr>sp_ticks := 1\<rparr>) = Some 1"
  unfolding leader_candidate_def Let_def live_members_ex
  by (simp add: leader_sup_ex_def sup_ex_def init_sup_def decided_primary_def)

lemma proposal_ex:
  "Propose \<lparr>dec_seq = 2, dec_primary = 1\<rparr> \<in>
     set (io_events (snd (tick os cfg_ex leader_tick_ex (leader_sup_ex, io_ex))))"
proof -
  have "proposals (io_events (snd (tick os cfg_ex leader_tick_ex (leader_sup_ex, io_ex)))) =
      [\<lparr>dec_seq = 2, dec_primary = 1\<rparr>]"
    unfolding tick_proposals prepare_leader before_leader_ex leader_phase_def prod.case
      live_members_ex leader_candidate_ex
    by (simp add: leader_tick_ex_def leader_sup_ex_def is_leader_def cfg_ex_def sup_ex_def init_sup_def
        decided_seq_def Let_def emit_def io_ex_def)
  then show ?thesis by (simp flip: proposals_mem)
qed

theorem leader_proposes_one_successor_witness:
  "proposals (io_events (snd (tick (os_ex {}) cfg_ex leader_tick_ex (leader_sup_ex, io_ex)))) =
     [\<lparr>dec_seq = 2, dec_primary = 1\<rparr>]"
  using leader_proposes_one_successor [OF run_ex(1) run_ex(2) proposal_ex refl] by simp

text \<open>
  C39: The proposal does not depend on the order in which a hash map iterates: two states that
  hold the same entries, with distinct keys, in different orders have the same number of live
  members and the same candidate.
\<close>

theorem candidate_ignores_map_order:
  assumes "hm_ok (sp_peers_lsn st)" "hm_ok m" "set m = set (sp_peers_lsn st)"
  shows "leader_candidate cfg i (st\<lparr>sp_peers_lsn := m\<rparr>) = leader_candidate cfg i st \<and>
    length (live_members cfg (i_leader_now i) (st\<lparr>sp_peers_lsn := m\<rparr>)) =
      length (live_members cfg (i_leader_now i) st)"
proof -
  define keep where "keep = (\<lambda>(k, _ :: u64, _ :: bool, seen).
    k = cf_node_id cfg \<or> duration_since (i_leader_now i) seen < dead_timeout)"
  let ?st = "st\<lparr>sp_peers_lsn := m\<rparr>"
  let ?l = "live_members cfg (i_leader_now i) st" and ?l' = "live_members cfg (i_leader_now i) ?st"
  have l: "?l = map (\<lambda>(k, lsn, rec, _). (k, lsn, rec)) (filter keep (sp_peers_lsn st))"
    and l': "?l' = map (\<lambda>(k, lsn, rec, _). (k, lsn, rec)) (filter keep m)"
    by (simp_all add: live_members_def keep_def)
  have set: "set ?l' = set ?l" by (simp add: l l' assms(3))
  have dist: "distinct (map fst ?l)" "distinct (map fst ?l')"
    using assms(1,2) unfolding l l' hm_ok_def
    by (simp_all add: comp_def case_prod_unfold distinct_map_filter)
  have len: "length ?l' = length ?l"
    using set dist by (metis distinct_card length_map list.set_map)
  have key: "candidate_key x = candidate_key y \<Longrightarrow> fst x = fst y" for x y
    by (simp add: candidate_key_def uint_eq)
  have inj: "inj_on candidate_key (set (map (probed_lsn cfg p) ?l))" for p
  proof (rule inj_onI)
    fix x y
    assume "x \<in> set (map (probed_lsn cfg p) ?l)" "y \<in> set (map (probed_lsn cfg p) ?l)"
      and eq: "candidate_key x = candidate_key y"
    then obtain a b where ab: "a \<in> set ?l" "b \<in> set ?l" "x = probed_lsn cfg p a" "y = probed_lsn cfg p b"
      by auto
    have "fst a = fst b" using key [OF eq] ab by simp
    then have "a = b" using dist(1) ab(1,2) by (auto simp: distinct_map dest: inj_onD)
    then show "x = y" using ab by simp
  qed
  have choose: "choose_primary (map (probed_lsn cfg p) ?l') = choose_primary (map (probed_lsn cfg p) ?l)" for p
    unfolding choose_primary_def using cand.max_by_set_eq [OF inj] set by (metis list.set_map)
  have min: "min_id (map fst (filter (\<lambda>m. \<not> snd (snd m)) ?l')) = min_id (map fst (filter (\<lambda>m. \<not> snd (snd m)) ?l))"
    by (rule min_id_set_eq) (simp add: set)
  have ex: "list_ex P ?l' = list_ex P ?l" for P by (simp add: list_ex_iff set)
  have dec: "sp_decided ?st = sp_decided st" "decided_primary ?st = decided_primary st"
    "sp_reconfirm_pending ?st = sp_reconfirm_pending st" "sp_peers_reconfirm ?st = sp_peers_reconfirm st"
    by (simp_all add: decided_primary_def)
  show ?thesis unfolding leader_candidate_def Let_def choose min ex dec using len by simp
qed

theorem candidate_ignores_map_order_witness:
  "leader_candidate cfg_ex leader_tick_ex
     ((leader_sup_ex\<lparr>sp_ticks := 1\<rparr>)\<lparr>sp_peers_lsn := [(2, 5, True, now_ex), (1, 7, False, now_ex)]\<rparr>) = Some 1"
  using candidate_ignores_map_order [of "leader_sup_ex\<lparr>sp_ticks := 1\<rparr>"
      "[(2, 5, True, now_ex), (1, 7, False, now_ex)]" cfg_ex leader_tick_ex] leader_candidate_ex
  by (auto simp: hm_ok_def leader_sup_ex_def)

section \<open>The quorum test\<close>

text \<open>
  The quorum test counts real voters: a positive test means that there is a set of distinct
  voters, this node and at least a majority, from each other of which a message arrived within
  the quorum lease; and every other majority of voters shares a member with it.
\<close>

lemma quorum_test_counts_a_majority:
  assumes "startup env v = Start cfg" "maps_ok cfg st" "quorum_ok cfg now st"
  shows "\<exists>Q \<subseteq> set (cf_voters cfg). cf_node_id cfg \<in> Q \<and> cf_majority cfg \<le> card Q \<and>
    (\<forall>k \<in> Q - {cf_node_id cfg}. \<exists>seen. (k, seen) \<in> set (sp_last_heard st) \<and>
       duration_since now seen < quorum_lease) \<and>
    (\<forall>M \<subseteq> set (cf_voters cfg). cf_majority cfg \<le> card M \<longrightarrow> M \<inter> Q \<noteq> {})"
proof -
  note cfg = startup_facts [OF assms(1)]
  note ok = assms(2)
  define fresh where "fresh = filter (\<lambda>(k, seen). k \<noteq> cf_node_id cfg \<and> duration_since now seen < quorum_lease)
    (sp_last_heard st)"
  define Q where "Q = insert (cf_node_id cfg) (fst ` set fresh)"
  have "distinct (map fst fresh)"
    using ok by (simp add: maps_ok_def hm_ok_def fresh_def distinct_map_filter)
  then have "card (fst ` set fresh) = length fresh"
    by (metis distinct_card length_map list.set_map)
  moreover have "cf_node_id cfg \<notin> fst ` set fresh" by (auto simp: fresh_def)
  ultimately have "card Q = 1 + length fresh" by (simp add: Q_def)
  then have card: "cf_majority cfg \<le> card Q"
    using assms(3) by (simp add: quorum_ok_def reachable_def fresh_def)
  have sub: "Q \<subseteq> set (cf_voters cfg)"
    using ok cfg(3) by (auto simp: Q_def fresh_def maps_ok_def)
  have heard: "\<exists>seen. (k, seen) \<in> set (sp_last_heard st) \<and> duration_since now seen < quorum_lease"
    if "k \<in> Q - {cf_node_id cfg}" for k
    using that by (auto simp: Q_def fresh_def)
  have "M \<inter> Q \<noteq> {}" if "M \<subseteq> set (cf_voters cfg)" "cf_majority cfg \<le> card M" for M
    using voters.meet [of "cf_voters cfg" M Q] that card sub cfg(4) by simp
  then show ?thesis using sub card heard by (intro exI [of _ Q]) (auto simp: Q_def)
qed

text \<open>Only gossip changes when a peer was last heard.\<close>

lemma last_heard_tick: "sp_last_heard (fst (tick os cfg i c)) = sp_last_heard (fst (prepare os cfg i c))"
proof -
  have same: "same_maps st st' \<Longrightarrow> sp_last_heard st' = sp_last_heard st" for st st'
    by (simp add: same_maps_def)
  show ?thesis
    by (simp add: tick_def Let_def same [OF other_phases_same_maps(15)] same [OF role_same_maps(1)]
        same [OF role_same_maps(2)])
qed

lemma last_heard_prepare:
  "sp_last_heard (fst (prepare os cfg i c)) = sp_last_heard (drain_gossip i (detect_stall (i_loop_now i) (fst c)))"
proof -
  have same: "same_maps st st' \<Longrightarrow> sp_last_heard st' = sp_last_heard st" for st st'
    by (simp add: same_maps_def)
  have gossip: "sp_last_heard (fst (gossip_phase cfg i d)) = sp_last_heard (fst d)" for d :: "sup \<times> 'a io"
    by (simp add: gossip_phase_def Let_def split: prod.split)
  show ?thesis
    by (cases c) (simp add: prepare_def Let_def same [OF other_phases_same_maps(5)]
        same [OF other_phases_same_maps(4)] same [OF other_phases_same_maps(3)] gossip
        same [OF other_phases_same_maps(2)])
qed

definition heard_in :: "tick_in list \<Rightarrow> sup \<Rightarrow> bool" where
  "heard_in ts st \<longleftrightarrow> (\<forall>k t. (k, t) \<in> set (sp_last_heard st) \<longrightarrow>
     (\<exists>j \<in> set ts. \<exists>p u. (k, p, t, u) \<in> set (i_msgs j)))"

lemma set_hm_insert: "set (hm_insert k v m) \<subseteq> insert (k, v) (set m)"
  unfolding hm_insert_def by (induction m) auto

lemma heard_drain:
  "set (sp_last_heard (drain_gossip i st)) \<subseteq>
     set (sp_last_heard st) \<union> {(k, t). \<exists>p u. (k, p, t, u) \<in> set (i_msgs i)}"
proof -
  have "set (sp_last_heard (foldl receive_gossip st ms)) \<subseteq>
     set (sp_last_heard st) \<union> {(k, t). \<exists>p u. (k, p, t, u) \<in> set ms}" for ms
  proof (induction ms rule: rev_induct)
    case (snoc m ms)
    obtain k p t u where m: "m = (k, p, t, u)" by (cases m)
    have "sp_last_heard (receive_gossip s m) = hm_insert k t (sp_last_heard s)" for s
      by (simp add: receive_gossip_def m Let_def split: option.split)
    then have "set (sp_last_heard (foldl receive_gossip st (ms @ [m]))) \<subseteq>
        insert (k, t) (set (sp_last_heard (foldl receive_gossip st ms)))"
      using set_hm_insert [of k t "sp_last_heard (foldl receive_gossip st ms)"] by simp
    moreover have "{(k, t). \<exists>p u. (k, p, t, u) \<in> set (ms @ [m])} =
        insert (k, t) {(k, t). \<exists>p u. (k, p, t, u) \<in> set ms}"
      unfolding m by auto
    ultimately show ?case using snoc by blast
  qed simp
  then show ?thesis by (simp add: drain_gossip_def)
qed

lemma heard_tick: "heard_in ts (fst c) \<Longrightarrow> heard_in (ts @ [i]) (fst (tick os cfg i c))"
proof -
  assume h: "heard_in ts (fst c)"
  have "sp_last_heard (detect_stall now st) = sp_last_heard st" for now st
    by (simp add: detect_stall_def Let_def)
  then show ?thesis
    using h heard_drain [of i "detect_stall (i_loop_now i) (fst c)"]
    unfolding heard_in_def last_heard_tick last_heard_prepare by fastforce
qed

lemma heard_run: "heard_in ts (fst (run_ticks os cfg ts (init_sup cur now, io)))"
proof (induction ts rule: rev_induct)
  case Nil
  then show ?case by (simp add: heard_in_def run_ticks_def init_sup_def)
next
  case (snoc i ts)
  then show ?case using heard_tick by (simp add: run_ticks_snoc)
qed

end
