(* ===== verification/Store.thy ===== *)
theory Store
  imports BTree Files Failover
begin

text \<open>
  \<open>src/store.rs\<close>: the Raft log store and state machine, each kept in memory and rewritten
  to its file on every change, and \<open>open\<close>. An operation returns its result, the memory after
  it, and every state the file system passed through, so that a crash can be put anywhere.
  Raft's leader ids, memberships and votes (\<open>openraft\<close>) are type parameters, and the JSON
  coding (\<open>serde_json\<close>) a pair of functions. The interface \<open>durable_store\<close> carries what both
  stores promise: acknowledged changes survive crashes.
\<close>

section \<open>Raft data\<close>

record 'l log_id =
  lid_leader :: 'l
  lid_index :: u64

datatype 'm payload = Blank | Normal decision | Membership 'm

record ('l, 'm) entry =
  e_log_id :: "'l log_id"
  e_payload :: "'m payload"

record ('l, 'm) stored_membership =
  mem_log_id :: "'l log_id option"
  mem_value :: 'm

datatype storage_error = WriteLogs | WriteStateMachine | ReadStateMachine | ReadSnapshot

definition e_index :: "('l, 'm) entry \<Rightarrow> u64" where
  "e_index e = lid_index (e_log_id e)"

section \<open>The log store\<close>

record ('v, 'l, 'm) log_state =
  l_vote :: "'v option"
  l_last_purged :: "'l log_id option"
  l_committed :: "'l log_id option"
  l_log :: "(u64, ('l, 'm) entry) btree"

definition default_log_state :: "('v, 'l, 'm) log_state" where
  "default_log_state = \<lparr>l_vote = None, l_last_purged = None, l_committed = None, l_log = []\<rparr>"

record ('v, 'l, 'm) log_store =
  l_path :: string
  l_state :: "('v, 'l, 'm) log_state"

type_synonym fault = "fs_op \<Rightarrow> nat option"
type_synonym ('v, 'l, 'm) log_ser = "('v, 'l, 'm) log_state \<Rightarrow> bytes option"

definition log_persist ::
    "('v, 'l, 'm) log_ser \<Rightarrow> fault \<Rightarrow> ('v, 'l, 'm) log_store \<Rightarrow> fs \<Rightarrow> (storage_error, unit) result \<times> fs list"
where
  "log_persist ser fault ls s =
     (case ser (l_state ls) of
        None \<Rightarrow> (Err WriteLogs, [s])
      | Some bs \<Rightarrow>
          (case atomic_write fault (l_path ls) bs s of
             (good, tr) \<Rightarrow> (if good then Ok () else Err WriteLogs, tr)))"

definition try_get_log_entries ::
    "u64 bound \<Rightarrow> u64 bound \<Rightarrow> ('v, 'l, 'm) log_store \<Rightarrow> ('l, 'm) entry list option" where
  "try_get_log_entries lo hi ls = map_option (map snd) (bt_range lo hi (l_log (l_state ls)))"

text \<open>The last purged id, and the id of the last entry or else the last purged one.\<close>

definition get_log_state ::
    "('v, 'l, 'm) log_store \<Rightarrow> 'l log_id option \<times> 'l log_id option" where
  "get_log_state ls =
     (let st = l_state ls; last_id = map_option e_log_id (bt_last (l_log st))
      in (l_last_purged st, case last_id of Some i \<Rightarrow> Some i | None \<Rightarrow> l_last_purged st))"

definition save_vote where
  "save_vote ser fault v ls s =
     (let ls' = ls\<lparr>l_state := (l_state ls)\<lparr>l_vote := Some v\<rparr>\<rparr>;
          (r, tr) = log_persist ser fault ls' s
      in (r, ls', tr))"

definition read_vote :: "('v, 'l, 'm) log_store \<Rightarrow> 'v option" where
  "read_vote ls = l_vote (l_state ls)"

definition save_committed where
  "save_committed ser fault c ls s =
     (let ls' = ls\<lparr>l_state := (l_state ls)\<lparr>l_committed := c\<rparr>\<rparr>;
          (r, tr) = log_persist ser fault ls' s
      in (r, ls', tr))"

definition read_committed :: "('v, 'l, 'm) log_store \<Rightarrow> 'l log_id option" where
  "read_committed ls = l_committed (l_state ls)"

definition log_insert_all ::
    "('l, 'm) entry list \<Rightarrow> (u64, ('l, 'm) entry) btree \<Rightarrow> (u64, ('l, 'm) entry) btree" where
  "log_insert_all es m = foldl (\<lambda>m (k, e). bt_insert k e m) m (map (\<lambda>e. (e_index e, e)) es)"

text \<open>\<open>append\<close> also returns whether it has called the flush callback with \<open>Ok\<close>.\<close>

definition append where
  "append ser fault es ls s =
     (let ls' = ls\<lparr>l_state := (l_state ls)\<lparr>l_log := log_insert_all es (l_log (l_state ls))\<rparr>\<rparr>
      in case log_persist ser fault ls' s of
           (Err e, tr) \<Rightarrow> ((Err e, False), ls', tr)
         | (Ok _, tr) \<Rightarrow> ((Ok (), True), ls', tr))"

definition log_remove_range ::
    "(u64 \<Rightarrow> bool) \<Rightarrow> (u64, ('l, 'm) entry) btree \<Rightarrow> (u64, ('l, 'm) entry) btree" where
  "log_remove_range P m = foldl (\<lambda>m k. bt_remove k m) m (map fst (filter (\<lambda>(k, _). P k) m))"

definition truncate_log where
  "truncate_log ser fault lid ls s =
     (let m = l_log (l_state ls);
          ls' = ls\<lparr>l_state := (l_state ls)\<lparr>
            l_log := log_remove_range (above (Included (lid_index lid))) m\<rparr>\<rparr>;
          (r, tr) = log_persist ser fault ls' s
      in (r, ls', tr))"

definition purge where
  "purge ser fault lid ls s =
     (let m = l_log (l_state ls);
          ls' = ls\<lparr>l_state := (l_state ls)\<lparr>l_last_purged := Some lid,
            l_log := log_remove_range (below (Included (lid_index lid))) m\<rparr>\<rparr>;
          (r, tr) = log_persist ser fault ls' s
      in (r, ls', tr))"

section \<open>The state machine\<close>

record ('l, 'm) sm_state =
  s_last_applied :: "'l log_id option"
  s_last_membership :: "('l, 'm) stored_membership"
  s_decision :: "decision option"

definition default_sm_state :: "'m \<Rightarrow> ('l, 'm) sm_state" where
  "default_sm_state mem0 =
     \<lparr>s_last_applied = None, s_last_membership = \<lparr>mem_log_id = None, mem_value = mem0\<rparr>,
      s_decision = None\<rparr>"

record ('l, 'm) snapshot_meta =
  m_last_log_id :: "'l log_id option"
  m_last_membership :: "('l, 'm) stored_membership"
  m_snapshot_id :: string

record ('l, 'm) stored_snapshot =
  sn_meta :: "('l, 'm) snapshot_meta"
  sn_data :: bytes

record ('l, 'm) state_machine =
  m_path :: string
  m_sm :: "('l, 'm) sm_state"
  m_snapshot :: "('l, 'm) stored_snapshot option"
  m_snapshot_idx :: u64
  m_shared :: "decision option"

text \<open>\<open>SharedDecision\<close>: a cell that the supervisor reads.\<close>

definition shared_current :: "('l, 'm) state_machine \<Rightarrow> decision option" where
  "shared_current m = m_shared m"

definition shared_set :: "decision option \<Rightarrow> ('l, 'm) state_machine \<Rightarrow> ('l, 'm) state_machine" where
  "shared_set d m = m\<lparr>m_shared := d\<rparr>"

type_synonym ('l, 'm) sm_ser = "('l, 'm) sm_state \<Rightarrow> bytes option"

definition sm_persist ::
    "('l, 'm) sm_ser \<Rightarrow> fault \<Rightarrow> ('l, 'm) state_machine \<Rightarrow> fs \<Rightarrow> (storage_error, unit) result \<times> fs list"
where
  "sm_persist ser fault m s =
     (case ser (m_sm m) of
        None \<Rightarrow> (Err WriteStateMachine, [s])
      | Some bs \<Rightarrow>
          (case atomic_write fault (m_path m) bs s of
             (good, tr) \<Rightarrow> (if good then Ok () else Err WriteStateMachine, tr)))"

text \<open>The leader id is shown by its \<open>Display\<close> instance.\<close>

definition snapshot_id :: "('l \<Rightarrow> string) \<Rightarrow> 'l log_id option \<Rightarrow> u64 \<Rightarrow> string" where
  "snapshot_id disp last_applied idx =
     (case last_applied of
        Some lid \<Rightarrow> disp (lid_leader lid) @ ''-'' @ show_u64 (lid_index lid) @ ''-'' @ show_u64 idx
      | None \<Rightarrow> ''--'' @ show_u64 idx)"

definition build_snapshot ::
    "('l \<Rightarrow> string) \<Rightarrow> ('l, 'm) sm_ser \<Rightarrow> ('l, 'm) state_machine \<Rightarrow>
       (storage_error, ('l, 'm) stored_snapshot) result \<times> ('l, 'm) state_machine" where
  "build_snapshot disp ser m =
     (case ser (m_sm m) of
        None \<Rightarrow> (Err ReadStateMachine, m)
      | Some bs \<Rightarrow>
          (let idx = m_snapshot_idx m + 1;
               snap = \<lparr>sn_meta = \<lparr>m_last_log_id = s_last_applied (m_sm m),
                                  m_last_membership = s_last_membership (m_sm m),
                                  m_snapshot_id = snapshot_id disp (s_last_applied (m_sm m)) idx\<rparr>,
                       sn_data = bs\<rparr>
           in (Ok snap, m\<lparr>m_snapshot_idx := idx, m_snapshot := Some snap\<rparr>)))"

definition applied_state ::
    "('l, 'm) state_machine \<Rightarrow> 'l log_id option \<times> ('l, 'm) stored_membership" where
  "applied_state m = (s_last_applied (m_sm m), s_last_membership (m_sm m))"

definition apply_entry ::
    "('l, 'm) sm_state \<times> bool \<Rightarrow> ('l, 'm) entry \<Rightarrow> ('l, 'm) sm_state \<times> bool" where
  "apply_entry = (\<lambda>(sm, changed) e.
     (let sm1 = sm\<lparr>s_last_applied := Some (e_log_id e)\<rparr>
      in case e_payload e of
           Blank \<Rightarrow> (sm1, changed)
         | Normal d \<Rightarrow> (sm1\<lparr>s_decision := Some d\<rparr>, True)
         | Membership mem \<Rightarrow>
             (sm1\<lparr>s_last_membership := \<lparr>mem_log_id = Some (e_log_id e), mem_value = mem\<rparr>\<rparr>, changed)))"

definition apply_entries ::
    "('l, 'm) entry list \<Rightarrow> ('l, 'm) sm_state \<Rightarrow> ('l, 'm) sm_state \<times> bool" where
  "apply_entries es sm = foldl apply_entry (sm, False) es"

definition apply_sm where
  "apply_sm ser fault es m s =
     (let (sm', changed) = apply_entries es (m_sm m); m' = m\<lparr>m_sm := sm'\<rparr>
      in case sm_persist ser fault m' s of
           (Err e, tr) \<Rightarrow> (Err e, m', tr)
         | (Ok _, tr) \<Rightarrow>
             (Ok (map (\<lambda>_. ()) es), if changed then shared_set (s_decision sm') m' else m', tr))"

definition install_snapshot_sm where
  "install_snapshot_sm ser de fault meta data m s =
     (case de data of
        None \<Rightarrow> (Err ReadSnapshot, m, [s])
      | Some new_sm \<Rightarrow>
          (let m' = m\<lparr>m_sm := new_sm, m_snapshot := Some \<lparr>sn_meta = meta, sn_data = data\<rparr>\<rparr>
           in case sm_persist ser fault m' s of
                (Err e, tr) \<Rightarrow> (Err e, m', tr)
              | (Ok _, tr) \<Rightarrow> (Ok (), shared_set (s_decision new_sm) m', tr)))"

definition begin_receiving_snapshot :: bytes where
  "begin_receiving_snapshot = []"

definition get_current_snapshot ::
    "('l, 'm) state_machine \<Rightarrow> ('l, 'm) stored_snapshot option" where
  "get_current_snapshot m = m_snapshot m"

section \<open>Opening the stores\<close>

definition path_join :: "string \<Rightarrow> string \<Rightarrow> string" where
  "path_join d name = (if d = [] then name else if last d = CHR ''/'' then d @ name else d @ ''/'' @ name)"

definition log_path :: "string \<Rightarrow> u64 \<Rightarrow> string" where
  "log_path d node_id = path_join d (''raft_log_'' @ show_u64 node_id @ ''.json'')"

definition sm_path :: "string \<Rightarrow> u64 \<Rightarrow> string" where
  "sm_path d node_id = path_join d (''raft_sm_'' @ show_u64 node_id @ ''.json'')"

definition open_log :: "string \<Rightarrow> ('v, 'l, 'm) log_state \<Rightarrow> ('v, 'l, 'm) log_store" where
  "open_log path st = \<lparr>l_path = path, l_state = st\<rparr>"

definition open_sm :: "string \<Rightarrow> ('l, 'm) sm_state \<Rightarrow> ('l, 'm) state_machine" where
  "open_sm path st =
     \<lparr>m_path = path, m_sm = st, m_snapshot = None, m_snapshot_idx = 0, m_shared = s_decision st\<rparr>"

text \<open>\<open>open\<close>; it panics when either file does.\<close>

definition open_store where
  "open_store de_log de_sm mem0 readable d node_id s =
     (case load de_log default_log_state (fs_read readable s (log_path d node_id)) of
        Panic \<Rightarrow> Panic
      | Loaded log_st \<Rightarrow>
          (case load de_sm (default_sm_state mem0) (fs_read readable s (sm_path d node_id)) of
             Panic \<Rightarrow> Panic
           | Loaded sm_st \<Rightarrow>
               Loaded (open_log (log_path d node_id) log_st, open_sm (sm_path d node_id) sm_st)))"

section \<open>Sequences of operations on a store\<close>

text \<open>
  The calls a store receives, each with the faults its file operations meet. A step returns
  whether the call was acknowledged: its result is \<open>Ok\<close> and promises durability.
\<close>

datatype ('v, 'l, 'm) log_op =
    SaveVote 'v
  | SaveCommitted "'l log_id option"
  | Append "('l, 'm) entry list"
  | Truncate "'l log_id"
  | Purge "'l log_id"

fun log_step ::
    "('v, 'l, 'm) log_ser \<Rightarrow> fault \<times> ('v, 'l, 'm) log_op \<Rightarrow> ('v, 'l, 'm) log_store \<Rightarrow> fs \<Rightarrow>
       bool \<times> ('v, 'l, 'm) log_store \<times> fs list" where
  "log_step ser (f, SaveVote v) ls s = map_prod is_ok id (save_vote ser f v ls s)"
| "log_step ser (f, SaveCommitted c) ls s = map_prod is_ok id (save_committed ser f c ls s)"
| "log_step ser (f, Append es) ls s = map_prod snd id (append ser f es ls s)"
| "log_step ser (f, Truncate lid) ls s = map_prod is_ok id (truncate_log ser f lid ls s)"
| "log_step ser (f, Purge lid) ls s = map_prod is_ok id (purge ser f lid ls s)"

datatype ('l, 'm) sm_op =
    Apply "('l, 'm) entry list"
  | BuildSnapshot
  | InstallSnapshot "('l, 'm) snapshot_meta" bytes

fun sm_step ::
    "('l \<Rightarrow> string) \<Rightarrow> ('l, 'm) sm_ser \<Rightarrow> (bytes \<Rightarrow> ('l, 'm) sm_state option) \<Rightarrow>
       fault \<times> ('l, 'm) sm_op \<Rightarrow> ('l, 'm) state_machine \<Rightarrow> fs \<Rightarrow>
       bool \<times> ('l, 'm) state_machine \<times> fs list" where
  "sm_step disp ser de (f, Apply es) m s = map_prod is_ok id (apply_sm ser f es m s)"
| "sm_step disp ser de (f, BuildSnapshot) m s = (False, snd (build_snapshot disp ser m), [s])"
| "sm_step disp ser de (f, InstallSnapshot meta bs) m s =
     map_prod is_ok id (install_snapshot_sm ser de f meta bs m s)"

text \<open>
  A run collects the memory after every step and every state of the file system.
\<close>

fun run_store ::
    "('x \<Rightarrow> 'mem \<Rightarrow> 'fs \<Rightarrow> bool \<times> 'mem \<times> 'fs list) \<Rightarrow> 'x list \<Rightarrow> 'mem \<Rightarrow> 'fs \<Rightarrow> 'mem list \<times> 'fs list"
where
  "run_store step [] m s = ([m], [s])"
| "run_store step (x # xs) m s =
     (case step x m s of
        (_, m', tr) \<Rightarrow> (let (ms, ts) = run_store step xs m' (last tr) in (m # ms, s # tr @ ts)))"

text \<open>What \<open>load\<close> may find when the machine restarts after a crash in a state.\<close>

definition recovered :: "(bytes \<Rightarrow> 't option) \<Rightarrow> 't \<Rightarrow> string \<Rightarrow> fs \<Rightarrow> 't loaded set" where
  "recovered de dflt path s =
     (\<lambda>c. load de dflt (case c of None \<Rightarrow> NotFound | Some bs \<Rightarrow> ReadOk bs)) ` Collect (crash_may s path)"

lemma load_after_crash:
  "crashes s t \<Longrightarrow> load de dflt (fs_read True t path) \<in> recovered de dflt path s"
proof -
  assume "crashes s t"
  then have "crash_may s path (map_option content (dir t path))"
    by (simp add: crashes_def)
  then show ?thesis
    unfolding recovered_def fs_read_def
    by (intro image_eqI [of _ _ "map_option content (dir t path)"]) (auto split: option.split)
qed

definition codec_ok :: "('t \<Rightarrow> bytes option) \<Rightarrow> (bytes \<Rightarrow> 't option) \<Rightarrow> bool" where
  "codec_ok ser de \<longleftrightarrow> (\<forall>x bs. ser x = Some bs \<longrightarrow> de bs = Some x)"

locale durable_store =
  fixes step :: "'x \<Rightarrow> 'mem \<Rightarrow> 'fs \<Rightarrow> bool \<times> 'mem \<times> 'fs list"
    and val :: "'mem \<Rightarrow> 't" and rec :: "'fs \<Rightarrow> 't set" and good :: "'mem \<Rightarrow> 'fs \<Rightarrow> bool"
  assumes step_during: "good m s \<Longrightarrow> step x m s = (a, m', tr) \<Longrightarrow> t \<in> set tr \<Longrightarrow>
      good m' t \<and> rec t \<subseteq> insert (val m') (rec s)"
    and step_acked: "good m s \<Longrightarrow> step x m s = (True, m', tr) \<Longrightarrow> rec (last tr) = {val m'}"
    and step_trace: "step x m s = (a, m', tr) \<Longrightarrow> tr \<noteq> []"
begin

lemma step_last:
  "good m s \<Longrightarrow> step x m s = (a, m', tr) \<Longrightarrow>
     good m' (last tr) \<and> rec (last tr) \<subseteq> insert (val m') (rec s)"
  using step_during step_trace last_in_set by meson

text \<open>A crash at any point of a run leaves a value the memory held, or one from before the run.\<close>

lemma run_recovers:
  "good m s \<Longrightarrow> run_store step xs m s = (ms, ts) \<Longrightarrow> t \<in> set ts \<Longrightarrow>
     rec t \<subseteq> val ` set ms \<union> rec s"
proof (induction xs arbitrary: m s ms ts)
  case (Cons x xs)
  obtain a m' tr where x: "step x m s = (a, m', tr)" by (metis prod_cases3)
  obtain ms' ts' where r: "run_store step xs m' (last tr) = (ms', ts')" by fastforce
  have eq: "ms = m # ms'" "ts = s # tr @ ts'" using Cons.prems(2) x r by auto
  have m': "m' \<in> set ms'" using r by (cases xs) (auto split: prod.splits)
  note during = step_during [OF Cons.prems(1) x] and after = step_last [OF Cons.prems(1) x]
  from Cons.prems(3) consider "t = s" | "t \<in> set tr" | "t \<in> set ts'" unfolding eq by auto
  then show ?case
  proof cases
    case 2
    then show ?thesis using during [of t] m' eq by auto
  next
    case 3
    then show ?thesis using Cons.IH [OF _ r] after m' eq by fastforce
  qed simp
qed simp

text \<open>
  After an acknowledged step, what holds of the memory and is kept by the later steps holds
  of whatever is recovered.
\<close>

lemma acked_recovers:
  assumes "good m s" "step x m s = (True, m1, tr)" "run_store step xs m1 (last tr) = (ms, ts)"
    "t \<in> set ts" "P m1"
    and keep: "\<And>y m s a m' tr. y \<in> set xs \<Longrightarrow> P m \<Longrightarrow> step y m s = (a, m', tr) \<Longrightarrow> P m'"
  shows "rec t \<subseteq> val ` {m. P m}"
proof -
  have "P n" if "run_store step ys m s = (ms, ts)" "set ys \<subseteq> set xs" "P m" "n \<in> set ms" for ys m s ms ts n
    using that
  proof (induction ys arbitrary: m s ms ts)
    case (Cons y ys)
    obtain a m' tr' where y: "step y m s = (a, m', tr')" by (metis prod_cases3)
    obtain ms' ts' where r: "run_store step ys m' (last tr') = (ms', ts')" by fastforce
    show ?case
      using Cons.IH [OF r] Cons.prems y r keep [of y m s a m' tr'] by auto
  qed simp
  then have "\<forall>n \<in> set ms. P n" using assms(3,5) by blast
  moreover have "m1 \<in> set ms" using assms(3) by (cases xs) (auto split: prod.splits)
  moreover have "rec t \<subseteq> val ` set ms \<union> {val m1}"
    using run_recovers [OF _ assms(3,4)] step_last [OF assms(1,2)] step_acked [OF assms(1,2)] by simp
  ultimately show ?thesis by blast
qed

end

section \<open>Both stores are durable\<close>

lemma crash_may_synced: "all_synced s p \<Longrightarrow> Collect (crash_may s p) = possible s p"
  by (force simp: all_synced_def crash_may_def possible_def list_all_iff split: option.splits)

lemma recovered_possible:
  "all_synced s p \<Longrightarrow> recovered de dflt p s =
     (\<lambda>c. load de dflt (case c of None \<Rightarrow> NotFound | Some bs \<Rightarrow> ReadOk bs)) ` possible s p"
  by (simp add: recovered_def crash_may_synced)

definition disk_ok :: "('t \<Rightarrow> bytes option) \<Rightarrow> (bytes \<Rightarrow> 't option) \<Rightarrow> string \<Rightarrow> fs \<Rightarrow> bool" where
  "disk_ok ser de p s \<longleftrightarrow> codec_ok ser de \<and> target_ok p \<and> all_synced s p"

lemma written_recovers:
  assumes "disk_ok ser de p s" "ser x = Some bs" "atomic_write f p bs s = (g, tr)"
  shows "tr \<noteq> []"
    and "t \<in> set tr \<Longrightarrow> disk_ok ser de p t \<and>
      recovered de dflt p t \<subseteq> insert (Loaded x) (recovered de dflt p s)"
    and "g \<Longrightarrow> recovered de dflt p (last tr) = {Loaded x}"
proof -
  have ok: "target_ok p" "all_synced s p" and de: "de bs = Some x"
    using assms(1,2) by (auto simp: disk_ok_def codec_ok_def)
  have tr: "snd (atomic_write f p bs s) = tr" and g: "fst (atomic_write f p bs s) = g"
    using assms(3) by simp_all
  show ne: "tr \<noteq> []" using af.wr_trace [of f p bs s] tr by simp
  have during: "all_synced t p \<and> possible t p \<subseteq> insert (Some bs) (possible s p)"
    if "t \<in> set tr" for t
    using af.wr_during [of p s t f bs] ok that tr by simp
  show "disk_ok ser de p t \<and>
      recovered de dflt p t \<subseteq> insert (Loaded x) (recovered de dflt p s)" if "t \<in> set tr" for t
    using during [OF that] assms(1) ok
    by (auto simp: disk_ok_def recovered_possible load_def de split: option.splits)
  show "recovered de dflt p (last tr) = {Loaded x}" if g
    using af.wr_done [of p s f bs] during [of "last tr"] ne ok that tr \<open>fst _ = g\<close>
    by (simp add: recovered_possible load_def de)
qed

lemma persist_nonempty:
  "log_persist ser f ls s = (r, tr) \<Longrightarrow> tr \<noteq> []"
  "sm_persist ser' f m s = (r, tr) \<Longrightarrow> tr \<noteq> []"
  using af.wr_trace
  by (auto simp: log_persist_def sm_persist_def split: option.splits prod.splits)
    (metis snd_conv)+

lemma log_persist_recovers:
  assumes "disk_ok ser de (l_path ls) s" "log_persist ser f ls s = (r, tr)"
  shows "tr \<noteq> []"
    and "t \<in> set tr \<Longrightarrow> disk_ok ser de (l_path ls) t \<and>
      recovered de dflt (l_path ls) t \<subseteq> insert (Loaded (l_state ls)) (recovered de dflt (l_path ls) s)"
    and "is_ok r \<Longrightarrow> recovered de dflt (l_path ls) (last tr) = {Loaded (l_state ls)}"
  using assms written_recovers [OF assms(1)]
  by (auto simp: log_persist_def split: option.splits prod.splits if_splits)

lemma sm_persist_recovers:
  assumes "disk_ok ser de (m_path m) s" "sm_persist ser f m s = (r, tr)"
  shows "tr \<noteq> []"
    and "t \<in> set tr \<Longrightarrow> disk_ok ser de (m_path m) t \<and>
      recovered de dflt (m_path m) t \<subseteq> insert (Loaded (m_sm m)) (recovered de dflt (m_path m) s)"
    and "is_ok r \<Longrightarrow> recovered de dflt (m_path m) (last tr) = {Loaded (m_sm m)}"
  using assms written_recovers [OF assms(1)]
  by (auto simp: sm_persist_def split: option.splits prod.splits if_splits)

text \<open>Every call on the log store ends by persisting the state it has set.\<close>

lemma log_step_persists:
  "log_step ser (f, x) ls s = (a, ls', tr) \<Longrightarrow>
     \<exists>r. log_persist ser f ls' s = (r, tr) \<and> a = is_ok r \<and> l_path ls' = l_path ls"
  by (cases x) (auto simp: save_vote_def save_committed_def append_def truncate_log_def purge_def
      Let_def split: prod.splits sum.splits)

lemma sm_step_persists:
  "sm_step disp ser de (f, x) m s = (a, m', tr) \<Longrightarrow>
     m_path m' = m_path m \<and>
     ((\<not> a \<and> tr = [s]) \<or>
      (\<exists>m1 r. sm_persist ser f m1 s = (r, tr) \<and> a = is_ok r \<and> m_path m1 = m_path m \<and> m_sm m1 = m_sm m'))"
proof (cases x)
  case (Apply es)
  assume "sm_step disp ser de (f, x) m s = (a, m', tr)"
  then show ?thesis
    using Apply
    by (cases "sm_persist ser f (m\<lparr>m_sm := fst (apply_entries es (m_sm m))\<rparr>) s")
      (auto simp: apply_sm_def shared_set_def case_prod_unfold Let_def split: sum.splits if_splits
        intro!: exI [of _ "m\<lparr>m_sm := fst (apply_entries es (m_sm m))\<rparr>"])
next
  case BuildSnapshot
  assume "sm_step disp ser de (f, x) m s = (a, m', tr)"
  then show ?thesis
    using BuildSnapshot by (auto simp: build_snapshot_def Let_def split: option.splits)
next
  case (InstallSnapshot meta bs)
  assume "sm_step disp ser de (f, x) m s = (a, m', tr)"
  then show ?thesis
    using InstallSnapshot
    by (cases "de bs")
      (auto simp: install_snapshot_sm_def shared_set_def Let_def split: prod.splits sum.splits
        intro!: exI [of _ "m\<lparr>m_sm := the (de bs), m_snapshot := Some \<lparr>sn_meta = meta, sn_data = bs\<rparr>\<rparr>"])
qed

interpretation log: durable_store "log_step ser" "\<lambda>ls. Loaded (l_state ls)" "recovered de dflt path"
    "\<lambda>ls s. disk_ok ser de path s \<and> l_path ls = path"
  for ser de dflt path
proof unfold_locales
  fix ls s and x :: "fault \<times> ('a, 'b, 'c) log_op" and a ls' tr
  obtain f op where x: "x = (f, op)" by (cases x)
  assume step: "log_step ser x ls s = (a, ls', tr)"
  from log_step_persists [OF this [unfolded x]] obtain r
    where r: "log_persist ser f ls' s = (r, tr)" "a = is_ok r" "l_path ls' = l_path ls" by blast
  show "tr \<noteq> []"
    using r(1) by (rule persist_nonempty)
  assume good: "disk_ok ser de path s \<and> l_path ls = path"
  then have ok: "disk_ok ser de (l_path ls') s" using r(3) by simp
  show "(disk_ok ser de path t \<and> l_path ls' = path) \<and>
      recovered de dflt path t \<subseteq> insert (Loaded (l_state ls')) (recovered de dflt path s)"
    if "t \<in> set tr" for t
    using log_persist_recovers(2) [OF ok r(1) that] good r(3) by simp
next
  fix ls s and x :: "fault \<times> ('a, 'b, 'c) log_op" and ls' tr
  obtain f op where x: "x = (f, op)" by (cases x)
  assume good: "disk_ok ser de path s \<and> l_path ls = path" and step: "log_step ser x ls s = (True, ls', tr)"
  from log_step_persists [OF step [unfolded x]] obtain r
    where r: "log_persist ser f ls' s = (r, tr)" "is_ok r" "l_path ls' = l_path ls" by auto
  show "recovered de dflt path (last tr) = {Loaded (l_state ls')}"
    using log_persist_recovers(3) [OF _ r(1,2), of de] good r(3) by simp
qed

interpretation sm: durable_store "sm_step disp ser de" "\<lambda>m. Loaded (m_sm m)" "recovered de dflt path"
    "\<lambda>m s. disk_ok ser de path s \<and> m_path m = path"
  for disp ser de dflt path
proof unfold_locales
  fix m s and x :: "fault \<times> ('a, 'b) sm_op" and a m' tr
  obtain f op where x: "x = (f, op)" by (cases x)
  assume step: "sm_step disp ser de x m s = (a, m', tr)"
  note cases = sm_step_persists [OF this [unfolded x]]
  show "tr \<noteq> []"
    using cases persist_nonempty(2) by blast
  assume good: "disk_ok ser de path s \<and> m_path m = path"
  show "(disk_ok ser de path t \<and> m_path m' = path) \<and>
      recovered de dflt path t \<subseteq> insert (Loaded (m_sm m')) (recovered de dflt path s)"
    if "t \<in> set tr" for t
    using cases
  proof (elim conjE disjE exE)
    fix m1 r
    assume p: "sm_persist ser f m1 s = (r, tr)" "m_path m1 = m_path m" "m_sm m1 = m_sm m'"
      "m_path m' = m_path m"
    show ?thesis using sm_persist_recovers(2) [OF _ p(1) that, of de] good p by simp
  qed (use good that in auto)
next
  fix m s and x :: "fault \<times> ('a, 'b) sm_op" and m' tr
  obtain f op where x: "x = (f, op)" by (cases x)
  assume good: "disk_ok ser de path s \<and> m_path m = path"
    and step: "sm_step disp ser de x m s = (True, m', tr)"
  from sm_step_persists [OF step [unfolded x]] obtain m1 r
    where r: "sm_persist ser f m1 s = (r, tr)" "is_ok r" "m_path m1 = m_path m" "m_sm m1 = m_sm m'"
    by auto
  show "recovered de dflt path (last tr) = {Loaded (m_sm m')}"
    using sm_persist_recovers(3) [OF _ r(1,2), of de] good r(3,4) by simp
qed

section \<open>The log as a map\<close>

lemma map_of_log_insert_all:
  "bt_ok m \<Longrightarrow> bt_ok (log_insert_all es m) \<and>
     map_of (log_insert_all es m) = map_of m ++ map_of (rev (map (\<lambda>e. (e_index e, e)) es))"
  unfolding log_insert_all_def by (rule bt.ins_list)

lemma map_of_log_remove_range:
  "bt_ok m \<Longrightarrow> bt_ok (log_remove_range P m) \<and> map_of (log_remove_range P m) = map_of m |` {k. \<not> P k}"
  unfolding log_remove_range_def using bt.del_matching [of m P] bt.del_list [of m] by blast

text \<open>The call keeps the entry of an index.\<close>

fun keeps_entry :: "u64 \<Rightarrow> ('v, 'l, 'm) log_op \<Rightarrow> bool" where
  "keeps_entry i (Append es) = list_all (\<lambda>e. e_index e \<noteq> i) es"
| "keeps_entry i (Truncate lid) = (i < lid_index lid)"
| "keeps_entry i (Purge lid) = (lid_index lid < i)"
| "keeps_entry i _ = True"

fun keeps_vote :: "('v, 'l, 'm) log_op \<Rightarrow> bool" where
  "keeps_vote (SaveVote v) = False"
| "keeps_vote _ = True"

definition log_ok :: "('v, 'l, 'm) log_state \<Rightarrow> bool" where
  "log_ok st \<longleftrightarrow> bt_ok (l_log st) \<and> (\<forall>i e. map_of (l_log st) i = Some e \<longrightarrow> e_index e = i)"

lemma log_ok_default: "log_ok default_log_state"
  by (simp add: log_ok_def default_log_state_def bt_ok_def)

lemma map_of_index_list:
  "map_of (rev (map (\<lambda>e. (e_index e, e)) es)) i = Some e \<Longrightarrow> e \<in> set es \<and> e_index e = i"
  by (auto dest!: map_of_SomeD)

text \<open>What a call does to the log state, whatever becomes of its file.\<close>

fun log_effect :: "('v, 'l, 'm) log_op \<Rightarrow> ('v, 'l, 'm) log_state \<Rightarrow> ('v, 'l, 'm) log_state" where
  "log_effect (SaveVote v) st = st\<lparr>l_vote := Some v\<rparr>"
| "log_effect (SaveCommitted c) st = st\<lparr>l_committed := c\<rparr>"
| "log_effect (Append es) st = st\<lparr>l_log := log_insert_all es (l_log st)\<rparr>"
| "log_effect (Truncate lid) st =
     st\<lparr>l_log := log_remove_range (above (Included (lid_index lid))) (l_log st)\<rparr>"
| "log_effect (Purge lid) st =
     st\<lparr>l_last_purged := Some lid, l_log := log_remove_range (below (Included (lid_index lid))) (l_log st)\<rparr>"

lemma log_step_effect:
  "log_step ser x ls s = (a, ls', tr) \<Longrightarrow> l_state ls' = log_effect (snd x) (l_state ls)"
proof -
  obtain f y where x: "x = (f, y)" by (cases x)
  assume "log_step ser x ls s = (a, ls', tr)"
  then show ?thesis unfolding x
    by (cases y) (auto simp: save_vote_def save_committed_def append_def truncate_log_def purge_def
        Let_def split: prod.splits sum.splits)
qed

lemma log_effect_ok: "log_ok st \<Longrightarrow> log_ok (log_effect x st)"
  using map_of_log_insert_all map_of_log_remove_range
  by (cases x)
    (auto simp: log_ok_def map_add_def restrict_map_def split: option.splits if_splits
      dest!: map_of_index_list)

lemma log_effect_keeps_entry:
  "keeps_entry i x \<Longrightarrow> bt_ok (l_log st) \<Longrightarrow>
     map_of (l_log (log_effect x st)) i = map_of (l_log st) i \<and> bt_ok (l_log (log_effect x st))"
  using map_of_log_insert_all map_of_log_remove_range
  by (cases x)
    (auto simp: map_add_def restrict_map_def list_all_iff split: option.splits
      dest!: map_of_index_list)

lemma log_effect_keeps_vote: "keeps_vote x \<Longrightarrow> l_vote (log_effect x st) = l_vote st"
  by (cases x) auto

end
