(* ===== verification/StoreSafety.thy ===== *)
theory StoreSafety
  imports Store
begin

text \<open>
  The properties of the Raft storage: what survives crashes, what a call does to the log, how
  the state machine replays entries and hands its state over in a snapshot, and that a node
  which runs both stores on one directory can always start again.
\<close>

section \<open>Reference definitions\<close>

definition decisions_of :: "('l, 'm) entry list \<Rightarrow> decision list" where
  "decisions_of es = List.map_filter (\<lambda>e. case e_payload e of Normal d \<Rightarrow> Some d | _ \<Rightarrow> None) es"

definition memberships_of :: "('l, 'm) entry list \<Rightarrow> ('l, 'm) stored_membership list" where
  "memberships_of es = List.map_filter (\<lambda>e. case e_payload e of
     Membership x \<Rightarrow> Some \<lparr>mem_log_id = Some (e_log_id e), mem_value = x\<rparr> | _ \<Rightarrow> None) es"

definition last_or :: "'a \<Rightarrow> 'a list \<Rightarrow> 'a" where
  "last_or d xs = (if xs = [] then d else last xs)"

lemma entry_parts:
  "decisions_of [] = []" "memberships_of [] = []"
  "decisions_of (es @ [e]) = decisions_of es @ (case e_payload e of Normal d \<Rightarrow> [d] | _ \<Rightarrow> [])"
  "memberships_of (es @ [e]) = memberships_of es @ (case e_payload e of
     Membership x \<Rightarrow> [\<lparr>mem_log_id = Some (e_log_id e), mem_value = x\<rparr>] | _ \<Rightarrow> [])"
  by (simp_all add: decisions_of_def memberships_of_def map_filter_def split: payload.split)

lemma last_or_simps [simp]: "last_or d [] = d" "last_or d (xs @ [x]) = x"
  by (simp_all add: last_or_def)

lemma apply_entries_snoc: "apply_entries (es @ [e]) sm = apply_entry (apply_entries es sm) e"
  by (simp add: apply_entries_def)

lemma apply_entries_spec:
  "apply_entries es sm =
     (sm\<lparr>s_last_applied := last_or (s_last_applied sm) (map (Some \<circ> e_log_id) es),
         s_last_membership := last_or (s_last_membership sm) (memberships_of es),
         s_decision := last_or (s_decision sm) (map Some (decisions_of es))\<rparr>,
      decisions_of es \<noteq> [])"
proof (induction es rule: rev_induct)
  case Nil
  then show ?case by (simp add: apply_entries_def entry_parts)
next
  case (snoc e es)
  then show ?case
    by (cases "e_payload e") (simp_all add: apply_entries_snoc apply_entry_def entry_parts Let_def)
qed

text \<open>Later calls only ever move the decision to one of at least the given number.\<close>

fun decides_from :: "u64 \<Rightarrow> (bytes \<Rightarrow> ('l, 'm) sm_state option) \<Rightarrow> ('l, 'm) sm_op \<Rightarrow> bool" where
  "decides_from k de (Apply es) = list_all (\<lambda>d. k \<le> dec_seq d) (decisions_of es)"
| "decides_from k de BuildSnapshot = True"
| "decides_from k de (InstallSnapshot meta bs) =
     (case de bs of None \<Rightarrow> True
      | Some sm' \<Rightarrow> (case s_decision sm' of None \<Rightarrow> False | Some d \<Rightarrow> k \<le> dec_seq d))"

definition decided_at_least :: "u64 \<Rightarrow> ('l, 'm) sm_state \<Rightarrow> bool" where
  "decided_at_least k sm = (case s_decision sm of None \<Rightarrow> False | Some d \<Rightarrow> k \<le> dec_seq d)"

lemma sm_step_state:
  "sm_step disp ser de (f, x) m s = (a, m', tr) \<Longrightarrow>
     m_sm m' = (case x of Apply es \<Rightarrow> fst (apply_entries es (m_sm m)) | BuildSnapshot \<Rightarrow> m_sm m
       | InstallSnapshot meta bs \<Rightarrow> unwrap_or (m_sm m) (de bs))"
  by (cases x) (auto simp: apply_sm_def build_snapshot_def install_snapshot_sm_def shared_set_def
      Let_def case_prod_unfold split: option.splits prod.splits sum.splits if_splits)

lemma decided_step:
  "sm_step disp ser de x m s = (a, m', tr) \<Longrightarrow> decides_from k de (snd x) \<Longrightarrow>
     decided_at_least k (m_sm m) \<Longrightarrow> decided_at_least k (m_sm m')"
proof -
  obtain f y where x: "x = (f, y)" by (cases x)
  assume "sm_step disp ser de x m s = (a, m', tr)" "decides_from k de (snd x)"
    "decided_at_least k (m_sm m)"
  then show ?thesis
    by (cases y) (auto simp: x sm_step_state apply_entries_spec decided_at_least_def last_or_def
        list_all_iff last_map simp del: sm_step.simps split: option.splits)
qed

section \<open>Two files that do not interfere\<close>

lemma path_join_split:
  assumes "d \<noteq> []"
  shows "\<exists>d'. \<forall>name. path_join d name = d' @ CHR ''/'' # name"
proof (cases "last d = CHR ''/''")
  case True
  then obtain d' where "d = d' @ [CHR ''/'']" using assms by (metis append_butlast_last_id)
  then show ?thesis using True by (intro exI [of _ d']) (simp add: path_join_def)
qed (auto simp: path_join_def assms)

lemma digits_plain:
  "CHR ''/'' \<notin> set (show_u64 x)" "CHR ''.'' \<notin> set (show_u64 x)"
proof -
  have "digit_value CHR ''/'' = None" "digit_value CHR ''.'' = None" by code_simp+
  then show "CHR ''/'' \<notin> set (show_u64 x)" "CHR ''.'' \<notin> set (show_u64 x)"
    using show_nat_digits [of _ "unat x"] unfolding show_u64_def by metis+
qed

lemma json_file:
  assumes "CHR ''/'' \<notin> set stem" "CHR ''.'' \<notin> set stem" "stem \<noteq> []"
  shows "with_extension_tmp (d' @ CHR ''/'' # stem @ ''.json'') = d' @ CHR ''/'' # stem @ ''.tmp''"
    and "parent_path (d' @ CHR ''/'' # stem @ ''.json'') \<noteq> []"
proof -
  have dir: "rsplit_once CHR ''/'' (d' @ CHR ''/'' # stem @ ''.json'') = Some (d', stem @ ''.json'')"
    using assms(1) by (intro rsplit_once_append) simp
  have ext: "rsplit_once CHR ''.'' (stem @ ''.json'') = Some (stem, ''json'')"
    by (rule rsplit_once_append) simp
  show "with_extension_tmp (d' @ CHR ''/'' # stem @ ''.json'') = d' @ CHR ''/'' # stem @ ''.tmp''"
    using assms(3) unfolding with_extension_tmp_def dir by (simp add: ext)
  show "parent_path (d' @ CHR ''/'' # stem @ ''.json'') \<noteq> []"
    unfolding parent_path_def dir by simp
qed

lemma store_paths:
  assumes "d \<noteq> []"
  shows "target_ok (log_path d i)" "target_ok (sm_path d i)"
    and "sm_path d i \<noteq> log_path d i" "sm_path d i \<noteq> with_extension_tmp (log_path d i)"
    and "log_path d i \<noteq> with_extension_tmp (sm_path d i)"
proof -
  obtain d' where d': "path_join d name = d' @ CHR ''/'' # name" for name
    using path_join_split [OF assms] by blast
  have lg: "log_path d i = d' @ CHR ''/'' # (''raft_log_'' @ show_u64 i) @ ''.json''"
    and sm: "sm_path d i = d' @ CHR ''/'' # (''raft_sm_'' @ show_u64 i) @ ''.json''"
    by (simp_all add: log_path_def sm_path_def d')
  have plain: "CHR ''/'' \<notin> set (''raft_log_'' @ show_u64 i)" "CHR ''.'' \<notin> set (''raft_log_'' @ show_u64 i)"
    "CHR ''/'' \<notin> set (''raft_sm_'' @ show_u64 i)" "CHR ''.'' \<notin> set (''raft_sm_'' @ show_u64 i)"
    using digits_plain [of i] by auto
  note files = json_file [OF plain(1,2)] json_file [OF plain(3,4)]
  show "target_ok (log_path d i)" "target_ok (sm_path d i)"
    unfolding target_ok_def lg sm using files by simp_all
  show "sm_path d i \<noteq> log_path d i" "sm_path d i \<noteq> with_extension_tmp (log_path d i)"
    "log_path d i \<noteq> with_extension_tmp (sm_path d i)"
    unfolding lg sm using files by simp_all
qed

text \<open>Writing one file leaves what a crash may do to another as it was, or less.\<close>

lemma atomic_write_other:
  assumes "q \<noteq> p" "q \<noteq> with_extension_tmp p" "atomic_write f p bs s = (g, tr)" "t \<in> set tr"
  shows "entries t q \<in> {entries s q, [dir s q]}"
  using assms
  by (auto simp: atomic_write_def atomic_write_ops_def Let_def entries_def set_entry_def map_file_def
      split: option.splits if_splits)

lemma other_recovered:
  assumes "entries t q \<in> {entries s q, [dir s q]}" "disk_ok ser de q s"
  shows "disk_ok ser de q t \<and> recovered de dflt q t \<subseteq> recovered de dflt q s"
  using assms
  by (auto simp: disk_ok_def all_synced_def recovered_def crash_may_def entries_def list_all_iff)

lemma persist_other:
  "log_persist ser f ls s = (r, tr) \<Longrightarrow> t \<in> set tr \<Longrightarrow> q \<noteq> l_path ls \<Longrightarrow>
     q \<noteq> with_extension_tmp (l_path ls) \<Longrightarrow> entries t q \<in> {entries s q, [dir s q]}"
  "sm_persist ser' f m s = (r, tr) \<Longrightarrow> t \<in> set tr \<Longrightarrow> q \<noteq> m_path m \<Longrightarrow>
     q \<noteq> with_extension_tmp (m_path m) \<Longrightarrow> entries t q \<in> {entries s q, [dir s q]}"
proof -
  assume "log_persist ser f ls s = (r, tr)" "t \<in> set tr" "q \<noteq> l_path ls"
    "q \<noteq> with_extension_tmp (l_path ls)"
  then show "entries t q \<in> {entries s q, [dir s q]}"
    using atomic_write_other [of q "l_path ls" f "the (ser (l_state ls))" s _ tr t]
    by (cases "ser (l_state ls)") (auto simp: log_persist_def split: prod.splits)
next
  assume "sm_persist ser' f m s = (r, tr)" "t \<in> set tr" "q \<noteq> m_path m"
    "q \<noteq> with_extension_tmp (m_path m)"
  then show "entries t q \<in> {entries s q, [dir s q]}"
    using atomic_write_other [of q "m_path m" f "the (ser' (m_sm m))" s _ tr t]
    by (cases "ser' (m_sm m)") (auto simp: sm_persist_def split: prod.splits)
qed

lemma log_step_other:
  assumes "log_step ser x ls s = (a, ls', tr)" "q \<noteq> l_path ls" "q \<noteq> with_extension_tmp (l_path ls)"
    "t \<in> set tr" "disk_ok ser' de' q s"
  shows "disk_ok ser' de' q t \<and> recovered de' dflt q t \<subseteq> recovered de' dflt q s"
proof -
  obtain f y where x: "x = (f, y)" by (cases x)
  obtain r where r: "log_persist ser f ls' s = (r, tr)" "l_path ls' = l_path ls"
    using log_step_persists assms(1) unfolding x by blast
  have "entries t q \<in> {entries s q, [dir s q]}"
    using persist_other(1) [OF r(1) assms(4)] assms(2,3) r(2) by simp
  then show ?thesis by (rule other_recovered) (rule assms(5))
qed

lemma sm_step_other:
  assumes "sm_step disp ser de x m s = (a, m', tr)" "q \<noteq> m_path m" "q \<noteq> with_extension_tmp (m_path m)"
    "t \<in> set tr" "disk_ok ser' de' q s"
  shows "disk_ok ser' de' q t \<and> recovered de' dflt q t \<subseteq> recovered de' dflt q s"
proof -
  obtain f y where x: "x = (f, y)" by (cases x)
  have "entries t q \<in> {entries s q, [dir s q]}"
    using sm_step_persists [OF assms(1) [unfolded x]]
  proof (elim conjE disjE exE)
    fix m1 r
    assume "sm_persist ser f m1 s = (r, tr)" "m_path m1 = m_path m"
    then show ?thesis using persist_other(2) [of ser f m1 s r tr t q] assms(2-4) by simp
  qed (use assms(4) in simp)
  then show ?thesis by (rule other_recovered) (rule assms(5))
qed

section \<open>A node: both stores on one directory\<close>

datatype ('v, 'l, 'm) node_op = LogCall "('v, 'l, 'm) log_op" | SmCall "('l, 'm) sm_op"

fun node_step where
  "node_step ser_l disp ser_m de_m (f, LogCall x) (ls, m) s =
     (case log_step ser_l (f, x) ls s of (a, ls', tr) \<Rightarrow> (a, (ls', m), tr))"
| "node_step ser_l disp ser_m de_m (f, SmCall x) (ls, m) s =
     (case sm_step disp ser_m de_m (f, x) m s of (a, m', tr) \<Rightarrow> (a, (ls, m'), tr))"

text \<open>What a crash may leave of a node, given the memories it has held.\<close>

definition node_ok where
  "node_ok ser_l de_l ser_m de_m mem0 lp sp ms s \<longleftrightarrow>
     disk_ok ser_l de_l lp s \<and> disk_ok ser_m de_m sp s \<and>
     recovered de_l default_log_state lp s \<subseteq> (\<lambda>(ls, m). Loaded (l_state ls)) ` ms \<and>
     recovered de_m (default_sm_state mem0) sp s \<subseteq> (\<lambda>(ls, m). Loaded (m_sm m)) ` ms"

lemma node_ok_insert:
  assumes "node_ok ser_l de_l ser_m de_m mem0 lp sp ms s"
    "disk_ok ser_l de_l lp t" "disk_ok ser_m de_m sp t"
    "recovered de_l default_log_state lp t \<subseteq>
       insert (Loaded (l_state ls')) (recovered de_l default_log_state lp s)"
    "recovered de_m (default_sm_state mem0) sp t \<subseteq>
       insert (Loaded (m_sm m')) (recovered de_m (default_sm_state mem0) sp s)"
  shows "node_ok ser_l de_l ser_m de_m mem0 lp sp (insert (ls', m') ms) t"
  unfolding node_ok_def
proof (intro conjI)
  show "recovered de_l default_log_state lp t \<subseteq> (\<lambda>(ls, m). Loaded (l_state ls)) ` insert (ls', m') ms"
    using assms(1) subset_trans [OF assms(4) insert_mono] unfolding node_ok_def by simp
  show "recovered de_m (default_sm_state mem0) sp t \<subseteq> (\<lambda>(ls, m). Loaded (m_sm m)) ` insert (ls', m') ms"
    using assms(1) subset_trans [OF assms(5) insert_mono] unfolding node_ok_def by simp
qed (rule assms(2,3))+

lemma node_step_ok:
  assumes "node_ok ser_l de_l ser_m de_m mem0 (l_path ls) (m_path m) ms s"
    and "node_step ser_l disp ser_m de_m x (ls, m) s = (a, (ls', m'), tr)"
    and "m_path m \<noteq> l_path ls" "m_path m \<noteq> with_extension_tmp (l_path ls)"
      "l_path ls \<noteq> with_extension_tmp (m_path m)"
  shows "tr \<noteq> [] \<and> l_path ls' = l_path ls \<and> m_path m' = m_path m \<and>
    (\<forall>t \<in> set tr. node_ok ser_l de_l ser_m de_m mem0 (l_path ls) (m_path m) (insert (ls', m') ms) t)"
proof (cases "snd x")
  case (LogCall y)
  then obtain f where x: "x = (f, LogCall y)" by (cases x) auto
  with assms(2) have step: "log_step ser_l (f, y) ls s = (a, ls', tr)" and m': "m' = m"
    by (auto split: prod.splits)
  note other = log_step_other [OF step assms(3,4), of _ ser_m de_m "default_sm_state mem0"]
  have disks: "disk_ok ser_l de_l (l_path ls) s" "disk_ok ser_m de_m (m_path m) s"
    using assms(1) by (simp_all add: node_ok_def)
  have "node_ok ser_l de_l ser_m de_m mem0 (l_path ls) (m_path m) (insert (ls', m') ms) t"
    if t: "t \<in> set tr" for t
    using log.step_during [of ser_l de_l "l_path ls" s ls "(f, y)" a ls' tr t default_log_state]
      other [OF t] disks step t
    by (intro node_ok_insert [OF assms(1)]) auto
  then show ?thesis
    using log.step_trace [OF step] log_step_persists [OF step] m' by blast
next
  case (SmCall y)
  then obtain f where x: "x = (f, SmCall y)" by (cases x) auto
  with assms(2) have step: "sm_step disp ser_m de_m (f, y) m s = (a, m', tr)" and ls': "ls' = ls"
    by (auto split: prod.splits)
  note other = sm_step_other [OF step assms(3) [symmetric] assms(5), of _ ser_l de_l default_log_state]
  have disks: "disk_ok ser_l de_l (l_path ls) s" "disk_ok ser_m de_m (m_path m) s"
    using assms(1) by (simp_all add: node_ok_def)
  have "node_ok ser_l de_l ser_m de_m mem0 (l_path ls) (m_path m) (insert (ls', m') ms) t"
    if t: "t \<in> set tr" for t
    using sm.step_during [of ser_m de_m "m_path m" s m disp "(f, y)" a m' tr t "default_sm_state mem0"]
      other [OF t] disks step t
    by (intro node_ok_insert [OF assms(1)]) auto
  then show ?thesis
    using sm.step_trace [OF step] sm_step_persists [OF step] ls' by blast
qed


lemma run_store_head: "run_store step xs m s = (ms, ts) \<Longrightarrow> m \<in> set ms \<and> s \<in> set ts"
  by (cases xs) (auto split: prod.splits)

lemma run_store_last: "last (snd (run_store step xs m s)) \<in> set (snd (run_store step xs m s))"
  using run_store_head [of step xs m s] by (cases "run_store step xs m s") (auto intro: last_in_set)

lemma node_ok_mono:
  "node_ok ser_l de_l ser_m de_m mem0 lp sp A u \<Longrightarrow> A \<subseteq> B \<Longrightarrow>
     node_ok ser_l de_l ser_m de_m mem0 lp sp B u"
  unfolding node_ok_def by (meson image_mono subset_trans)

lemma node_run_ok:
  assumes "node_ok ser_l de_l ser_m de_m mem0 (l_path ls) (m_path m) old s"
    and "m_path m \<noteq> l_path ls" "m_path m \<noteq> with_extension_tmp (l_path ls)"
      "l_path ls \<noteq> with_extension_tmp (m_path m)"
    and "run_store (node_step ser_l disp ser_m de_m) xs (ls, m) s = (ms, ts)" "t \<in> set ts"
  shows "node_ok ser_l de_l ser_m de_m mem0 (l_path ls) (m_path m) (old \<union> set ms) t"
  using assms
proof (induction xs arbitrary: ls m s ms ts old)
  case Nil
  then show ?case by (auto simp: node_ok_def)
next
  case (Cons x xs)
  obtain a nd tr where "node_step ser_l disp ser_m de_m x (ls, m) s = (a, nd, tr)"
    by (metis prod_cases3)
  then obtain ls' m' where x: "node_step ser_l disp ser_m de_m x (ls, m) s = (a, (ls', m'), tr)"
    by (cases nd) simp
  obtain ms' ts' where r: "run_store (node_step ser_l disp ser_m de_m) xs (ls', m') (last tr) = (ms', ts')"
    by fastforce
  have eq: "ms = (ls, m) # ms'" "ts = s # tr @ ts'" using Cons.prems(5) x r by auto
  note step = node_step_ok [OF Cons.prems(1) x Cons.prems(2-4)]
  have m': "(ls', m') \<in> set ms'" using run_store_head [OF r] by simp
  have last: "node_ok ser_l de_l ser_m de_m mem0 (l_path ls') (m_path m') (insert (ls', m') old) (last tr)"
    using step by simp
  from Cons.prems(6) consider "t = s" | "t \<in> set tr" | "t \<in> set ts'" unfolding eq by auto
  then show ?case
  proof cases
    case 1
    then show ?thesis using node_ok_mono [OF Cons.prems(1)] by blast
  next
    case 2
    then show ?thesis 
      using node_ok_mono [of ser_l de_l ser_m de_m mem0 "l_path ls" "m_path m" "insert (ls', m') old" t
          "old \<union> set ms"] step m' by (simp add: eq subset_insertI2)
  next
    case 3
    have "node_ok ser_l de_l ser_m de_m mem0 (l_path ls') (m_path m') (insert (ls', m') old \<union> set ms') t"
      by (rule Cons.IH [OF last _ _ _ r 3]) (use step Cons.prems(2-4) in auto)
    then show ?thesis 
      using node_ok_mono [of ser_l de_l ser_m de_m mem0 "l_path ls" "m_path m"
          "insert (ls', m') old \<union> set ms'" t "old \<union> set ms"] step m' by (auto simp: eq)
  qed
qed

text \<open>A disk as a machine finds it when it starts: nothing is pending.\<close>

definition settled :: "fs \<Rightarrow> bool" where
  "settled s \<longleftrightarrow> (\<forall>p. olds s p = [] \<and> (case dir s p of None \<Rightarrow> True | Some f \<Rightarrow> synced f))"

lemma settled_recovered:
  "settled s \<Longrightarrow> all_synced s p \<and> recovered de dflt p s = {load de dflt (fs_read True s p)}"
proof -
  assume "settled s"
  then have "olds s p = []" "case dir s p of None \<Rightarrow> True | Some f \<Rightarrow> synced f"
    by (simp_all add: settled_def)
  then have "all_synced s p \<and> Collect (crash_may s p) = {map_option content (dir s p)}"
    by (cases "dir s p") (auto simp: all_synced_def entries_def crash_may_def)
  then show ?thesis
    by (simp add: recovered_def fs_read_def split: option.split)
qed

lemma crashes_settled: "crashes s t \<Longrightarrow> settled t"
  by (simp add: crashes_def settled_def)

section \<open>A concrete store\<close>

text \<open>A coding of finitely many states, and one entry, for the instances below.\<close>

definition table_ser :: "('t \<times> bytes) list \<Rightarrow> 't \<Rightarrow> bytes option" where
  "table_ser tbl = map_of tbl"

definition table_de :: "('t \<times> bytes) list \<Rightarrow> bytes \<Rightarrow> 't option" where
  "table_de tbl = map_of (map (\<lambda>(x, b). (b, x)) tbl)"

lemma table_codec: "distinct (map snd tbl) \<Longrightarrow> codec_ok (table_ser tbl) (table_de tbl)"
  unfolding codec_ok_def table_ser_def table_de_def
  by (auto intro!: map_of_is_SomeI dest!: map_of_SomeD simp: comp_def case_prod_unfold) force

definition entry_ex :: "(nat, unit) entry" where
  "entry_ex = \<lparr>e_log_id = \<lparr>lid_leader = 1, lid_index = 1\<rparr>, e_payload = Normal \<lparr>dec_seq = 1, dec_primary = 2\<rparr>\<rparr>"

definition log_ex :: "(nat, nat, unit) log_store" where
  "log_ex = open_log ''d/s.json'' default_log_state"

definition log_table :: "((nat, nat, unit) log_state \<times> bytes) list" where
  "log_table =
     [(default_log_state\<lparr>l_log := [(1, entry_ex)]\<rparr>, [1]), (default_log_state\<lparr>l_vote := Some 7\<rparr>, [2])]"

definition sm_ex :: "(nat, unit) state_machine" where
  "sm_ex = open_sm ''d/s.json'' (default_sm_state ())"

definition sm_decided :: "(nat, unit) sm_state" where
  "sm_decided = (default_sm_state ())\<lparr>s_last_applied := Some (e_log_id entry_ex),
     s_decision := Some \<lparr>dec_seq = 1, dec_primary = 2\<rparr>\<rparr>"

definition sm_table :: "((nat, unit) sm_state \<times> bytes) list" where
  "sm_table = [(sm_decided, [1])]"

lemma example_codecs:
  "codec_ok (table_ser log_table) (table_de log_table)" "codec_ok (table_ser sm_table) (table_de sm_table)"
  by (rule table_codec, simp add: log_table_def sm_table_def)+

lemma example_disk:
  "target_ok (l_path log_ex)" "all_synced disk_example (l_path log_ex)" "log_ok (l_state log_ex)"
  "target_ok (m_path sm_ex)" "all_synced disk_example (m_path sm_ex)"
  using disk_example_ok log_ok_default
  by (simp_all add: log_ex_def open_log_def sm_ex_def open_sm_def)

lemmas example_defs = table_ser_def log_ex_def log_table_def sm_ex_def sm_table_def sm_decided_def
  open_log_def open_sm_def default_log_state_def default_sm_state_def entry_ex_def

lemma example_append:
  "fst (append (table_ser log_table) (\<lambda>_. None) [entry_ex] log_ex disk_example) = (Ok (), True)"
  by (simp add: append_def log_persist_def atomic_write_def atomic_write_ops_def Let_def
      log_insert_all_def e_index_def example_defs case_prod_unfold)

lemma example_vote:
  "fst (save_vote (table_ser log_table) (\<lambda>_. None) 7 log_ex disk_example) = Ok ()"
  by (simp add: save_vote_def log_persist_def atomic_write_def atomic_write_ops_def Let_def
      example_defs case_prod_unfold)

lemma example_apply:
  "fst (apply_sm (table_ser sm_table) (\<lambda>_. None) [entry_ex] sm_ex disk_example) = Ok [()]"
  "fst (snd (apply_sm (table_ser sm_table) (\<lambda>_. None) [entry_ex] sm_ex disk_example)) =
     \<lparr>m_path = ''d/s.json'', m_sm = sm_decided, m_snapshot = None, m_snapshot_idx = 0,
      m_shared = Some \<lparr>dec_seq = 1, dec_primary = 2\<rparr>\<rparr>"
  by (simp_all add: apply_sm_def sm_persist_def atomic_write_def atomic_write_ops_def Let_def
      apply_entries_def apply_entry_def shared_set_def example_defs case_prod_unfold)

section \<open>Properties of the log store\<close>

text \<open>
  C15: Once \<open>append\<close> has called its flush callback, the entries it appended survive: a crash at
  any point of whatever calls follow, each failing where it may, leaves a loadable log that
  still holds such an entry under its index, unless one of those calls overwrote, truncated
  or purged that index.
\<close>

theorem flushed_entries_survive_crashes:
  assumes "codec_ok ser de" "target_ok (l_path ls)" "all_synced s (l_path ls)" "log_ok (l_state ls)"
    and "append ser f es ls s = ((r, True), ls1, tr)"
    and "e \<in> set es" "distinct (map e_index es)"
    and "list_all (\<lambda>(_, x). keeps_entry (e_index e) x) xs"
    and "run_store (log_step ser) xs ls1 (last tr) = (ms, ts)" "t \<in> set ts"
    and "got \<in> recovered de dflt (l_path ls) t"
  shows "\<exists>st. got = Loaded st \<and> map_of (l_log st) (e_index e) = Some e"
proof -
  define P where "P = (\<lambda>n :: ('a, 'b, 'c) log_store.
    bt_ok (l_log (l_state n)) \<and> map_of (l_log (l_state n)) (e_index e) = Some e)"
  have step: "log_step ser (f, Append es) ls s = (True, ls1, tr)" using assms(5) by simp
  have "map_of (rev (map (\<lambda>e. (e_index e, e)) es)) (e_index e) = Some e"
    using assms(6,7) by (intro map_of_is_SomeI) (auto simp: comp_def distinct_map rev_map)
  then have P1: "P ls1"
    using log_step_effect [OF step] map_of_log_insert_all [of "l_log (l_state ls)" es] assms(4)
    by (simp add: P_def log_ok_def map_add_def)
  have "recovered de dflt (l_path ls) t \<subseteq> (\<lambda>n. Loaded (l_state n)) ` {n. P n}"
  proof (rule log.acked_recovers [where P = P, OF _ step assms(9,10) P1])
    show "disk_ok ser de (l_path ls) s \<and> l_path ls = l_path ls"
      using assms(1-3) by (simp add: disk_ok_def)
    show "P m'" if "y \<in> set xs" "P m" "log_step ser y m s' = (a, m', tr')" for y m s' a m' tr'
      using that log_effect_keeps_entry [of "e_index e" "snd y" "l_state m"] assms(8)
      by (auto simp: P_def list_all_iff log_step_effect [OF that(3)])
  qed
  then show ?thesis using assms(11) by (auto simp: P_def)
qed

theorem flushed_entries_survive_crashes_witness:
  "let c = append (table_ser log_table) (\<lambda>_. None) [entry_ex] log_ex disk_example;
       xs = [(\<lambda>_. Some 0, Truncate \<lparr>lid_leader = 1, lid_index = 2\<rparr>)];
       run = run_store (log_step (table_ser log_table)) xs (fst (snd c)) (last (snd (snd c)))
   in recovered (table_de log_table) default_log_state (l_path log_ex) (last (snd run)) \<subseteq>
        {got. \<exists>st. got = Loaded st \<and> map_of (l_log st) (e_index entry_ex) = Some entry_ex}"
proof -
  let ?c = "append (table_ser log_table) (\<lambda>_. None) [entry_ex] log_ex disk_example"
  let ?xs = "[(\<lambda>_. Some 0, Truncate \<lparr>lid_leader = 1, lid_index = 2\<rparr>)]"
  let ?run = "run_store (log_step (table_ser log_table)) ?xs (fst (snd ?c)) (last (snd (snd ?c)))"
  have c: "?c = ((Ok (), True), fst (snd ?c), snd (snd ?c))"
    using example_append by (metis prod.collapse)
  have t: "last (snd ?run) \<in> set (snd ?run)" by (rule run_store_last)
  have "list_all (\<lambda>(_, x). keeps_entry (e_index entry_ex) x) ?xs"
    by (simp add: e_index_def entry_ex_def)
  then show ?thesis
    unfolding Let_def
    by (intro subsetI CollectI
        flushed_entries_survive_crashes [OF example_codecs(1) example_disk(1-3) c _ _ _ prod.collapse [symmetric] t])
      simp_all
qed

text \<open>
  C29: A vote that \<open>save_vote\<close> acknowledged is never forgotten: a crash at any point of later
  calls that save no other vote leaves a loadable log state with that vote.
\<close>

theorem acknowledged_vote_survives_crashes:
  assumes "codec_ok ser de" "target_ok (l_path ls)" "all_synced s (l_path ls)"
    and "save_vote ser f v ls s = (Ok u, ls1, tr)"
    and "list_all (\<lambda>(_, x). keeps_vote x) xs"
    and "run_store (log_step ser) xs ls1 (last tr) = (ms, ts)" "t \<in> set ts"
    and "got \<in> recovered de dflt (l_path ls) t"
  shows "\<exists>st. got = Loaded st \<and> l_vote st = Some v"
proof -
  define P where "P = (\<lambda>n :: ('a, 'b, 'c) log_store. l_vote (l_state n) = Some v)"
  have step: "log_step ser (f, SaveVote v) ls s = (True, ls1, tr)" using assms(4) by simp
  have P1: "P ls1" using log_step_effect [OF step] by (simp add: P_def)
  have "recovered de dflt (l_path ls) t \<subseteq> (\<lambda>n. Loaded (l_state n)) ` {n. P n}"
  proof (rule log.acked_recovers [where P = P, OF _ step assms(6,7) P1])
    show "disk_ok ser de (l_path ls) s \<and> l_path ls = l_path ls"
      using assms(1-3) by (simp add: disk_ok_def)
    show "P m'" if "y \<in> set xs" "P m" "log_step ser y m s' = (a, m', tr')" for y m s' a m' tr'
      using that log_effect_keeps_vote [of "snd y" "l_state m"] assms(5)
      by (auto simp: P_def list_all_iff log_step_effect [OF that(3)])
  qed
  then show ?thesis using assms(8) by (auto simp: P_def)
qed

theorem acknowledged_vote_survives_crashes_witness:
  "let c = save_vote (table_ser log_table) (\<lambda>_. None) 7 log_ex disk_example;
       run = run_store (log_step (table_ser log_table)) [(\<lambda>_. Some 0, Append [entry_ex])]
         (fst (snd c)) (last (snd (snd c)))
   in recovered (table_de log_table) default_log_state (l_path log_ex) (last (snd run)) \<subseteq>
        {got. \<exists>st. got = Loaded st \<and> l_vote st = Some 7}"
proof -
  let ?c = "save_vote (table_ser log_table) (\<lambda>_. None) 7 log_ex disk_example"
  let ?xs = "[(\<lambda>_. Some 0, Append [entry_ex])]"
  let ?run = "run_store (log_step (table_ser log_table)) ?xs (fst (snd ?c)) (last (snd (snd ?c)))"
  have c: "?c = (Ok (), fst (snd ?c), snd (snd ?c))"
    using example_vote by (metis prod.collapse)
  have "list_all (\<lambda>(_, x). keeps_vote x) ?xs" by simp
  note keeps = this
  show ?thesis
    unfolding Let_def
    by (intro subsetI CollectI
        acknowledged_vote_survives_crashes [OF example_codecs(1) example_disk(1,2) c keeps
          prod.collapse [symmetric] run_store_last])
qed

text \<open>
  What each call does to the log, entry by entry, whether or not its file could be written:
  \<open>append\<close> replaces exactly the appended indexes (the last entry of an index wins),
  \<open>truncate\<close> removes the indexes from its own on, \<open>purge\<close> those up to its own, and nothing
  else changes an entry.
\<close>

lemma log_calls_change_exactly_their_range:
  assumes "log_ok (l_state ls)" "log_step ser (f, x) ls s = (a, ls', tr)"
  shows "log_ok (l_state ls') \<and>
    map_of (l_log (l_state ls')) i =
      (let old = map_of (l_log (l_state ls)) i in case x of
         Append es \<Rightarrow> (case find (\<lambda>e. e_index e = i) (rev es) of Some e \<Rightarrow> Some e | None \<Rightarrow> old)
       | Truncate lid \<Rightarrow> if i < lid_index lid then old else None
       | Purge lid \<Rightarrow> if lid_index lid < i then old else None
       | _ \<Rightarrow> old)"
proof -
  have "map_of (map (\<lambda>e. (e_index e, e)) es) i = find (\<lambda>e. e_index e = i) es"
    for es :: "('b, 'c) entry list"
    by (induction es) auto
  then have find: "map_of (rev (map (\<lambda>e. (e_index e, e)) es)) i = find (\<lambda>e. e_index e = i) (rev es)"
    for es :: "('b, 'c) entry list"
    by (simp add: rev_map)
  have bt: "bt_ok (l_log (l_state ls))" using assms(1) by (simp add: log_ok_def)
  show ?thesis
    unfolding log_step_effect [OF assms(2)] snd_conv
    using log_effect_ok [OF assms(1), of x]
    by (cases x) (simp_all add: find map_add_def restrict_map_def Let_def not_less
        map_of_log_insert_all [OF bt] map_of_log_remove_range [OF bt])
qed

lemma log_calls_change_exactly_their_range_witness:
  "let c = log_step (table_ser log_table) (\<lambda>_. None, Append [entry_ex]) log_ex disk_example
   in map_of (l_log (l_state (fst (snd c)))) 1 = Some entry_ex"
proof -
  let ?c = "log_step (table_ser log_table) (\<lambda>_. None, Append [entry_ex]) log_ex disk_example"
  have "?c = (fst ?c, fst (snd ?c), snd (snd ?c))" by (simp only: prod.collapse)
  from log_calls_change_exactly_their_range [OF example_disk(3) this, of 1]
  have "map_of (l_log (l_state (fst (snd ?c)))) 1 =
      (case find (\<lambda>e. e_index e = 1) [entry_ex] of Some e \<Rightarrow> Some e
       | None \<Rightarrow> map_of (l_log (l_state log_ex)) 1)"
    unfolding Let_def by (simp del: log_step.simps find.simps)
  then show ?thesis by (simp add: e_index_def entry_ex_def del: log_step.simps)
qed

text \<open>
  What the log reports: \<open>try_get_log_entries\<close> returns exactly the entries in the range, in
  index order, and panics only on a range that \<open>BTreeMap\<close> refuses; \<open>get_log_state\<close> returns the
  id of the entry of greatest index, or the last purged id when the log is empty.
\<close>

lemma log_reads_are_exact:
  assumes "log_ok (l_state ls)"
  shows "(try_get_log_entries lo hi ls = None \<longleftrightarrow> range_panics lo hi) \<and>
    (\<forall>es. try_get_log_entries lo hi ls = Some es \<longrightarrow>
       sorted_wrt (<) (map e_index es) \<and>
       set es = {e. map_of (l_log (l_state ls)) (e_index e) = Some e \<and>
                    above lo (e_index e) \<and> below hi (e_index e)}) \<and>
    fst (get_log_state ls) = l_last_purged (l_state ls) \<and>
    (l_log (l_state ls) = [] \<longrightarrow> snd (get_log_state ls) = l_last_purged (l_state ls)) \<and>
    (\<forall>i e. map_of (l_log (l_state ls)) i = Some e \<longrightarrow>
       (\<exists>lid. snd (get_log_state ls) = Some lid \<and> i \<le> lid_index lid \<and>
          (\<exists>e'. map_of (l_log (l_state ls)) (lid_index lid) = Some e' \<and> e_log_id e' = lid)))"
proof -
  define m where "m = l_log (l_state ls)"
  have bt: "bt_ok m" and idx: "\<And>i e. map_of m i = Some e \<Longrightarrow> e_index e = i"
    using assms by (simp_all add: log_ok_def m_def)
  have ents: "(i, e) \<in> set m \<longleftrightarrow> map_of m i = Some e" for i e
    by (rule bt.ents_look [OF bt])
  then have keys: "fst x = e_index (snd x)" if "x \<in> set m" for x
    using idx that by (cases x) auto
  have read: "sorted_wrt (<) (map e_index es) \<and>
      set es = {e. map_of m (e_index e) = Some e \<and> above lo (e_index e) \<and> below hi (e_index e)}"
    if "es = map snd (filter (\<lambda>(k, _). above lo k \<and> below hi k) m)" for es
  proof
    let ?xs = "filter (\<lambda>(k, _). above lo k \<and> below hi k) m"
    have "map e_index es = map fst ?xs" using keys by (auto simp: that)
    then show "sorted_wrt (<) (map e_index es)"
      using bt_ok_sorted [OF bt_ok_filter [OF bt]] by simp
    show "set es = {e. map_of m (e_index e) = Some e \<and> above lo (e_index e) \<and> below hi (e_index e)}"
    proof (rule set_eqI)
      fix e
      have "e \<in> set es \<longleftrightarrow> (\<exists>k. (k, e) \<in> set m \<and> above lo k \<and> below hi k)"
        by (auto simp: that image_iff)
      then show "e \<in> set es \<longleftrightarrow>
          e \<in> {e. map_of m (e_index e) = Some e \<and> above lo (e_index e) \<and> below hi (e_index e)}"
        using keys [of "(_, e)"] unfolding ents [symmetric] by auto
    qed
  qed
  have last: "\<exists>lid. snd (get_log_state ls) = Some lid \<and> i \<le> lid_index lid \<and>
      (\<exists>e'. map_of m (lid_index lid) = Some e' \<and> e_log_id e' = lid)" if "map_of m i = Some e" for i e
  proof -
    have ne: "m \<noteq> []" using that by auto
    have in_m: "last m \<in> set m" using ne by simp
    then have "map_of m (fst (last m)) = Some (snd (last m))" unfolding ents [symmetric] by simp
    moreover have "i \<le> fst (last m)" by (rule bt.last_greatest [OF bt ne that])
    moreover have "fst (last m) = lid_index (e_log_id (snd (last m)))"
      using keys [OF in_m] by (simp add: e_index_def)
    ultimately show ?thesis
      using ne by (simp add: get_log_state_def bt_last_def Let_def m_def [symmetric])
  qed
  have "try_get_log_entries lo hi ls =
      (if range_panics lo hi then None else Some (map snd (filter (\<lambda>(k, _). above lo k \<and> below hi k) m)))"
    by (simp add: try_get_log_entries_def bt_range_def m_def)
  moreover have "fst (get_log_state ls) = l_last_purged (l_state ls)"
    "m = [] \<longrightarrow> snd (get_log_state ls) = l_last_purged (l_state ls)"
    by (simp_all add: get_log_state_def bt_last_def Let_def m_def)
  ultimately show ?thesis
    using read [OF refl] last unfolding m_def [symmetric] by simp
qed

lemma log_reads_are_exact_witness:
  "try_get_log_entries (Included 1) Unbounded log_ex \<noteq> None \<and> snd (get_log_state log_ex) = None"
  using log_reads_are_exact [OF example_disk(3), of "Included 1" Unbounded]
  by (simp add: log_ex_def open_log_def default_log_state_def)

section \<open>Properties of the state machine\<close>

text \<open>
  C30: Applying entries replays them: the last applied id, membership (with the id of the entry
  that set it) and decision are those of the last entry of each kind, or the old ones without
  any; the change flag says whether a decision was applied; and batching does not matter.
\<close>

theorem apply_replays_the_log:
  "apply_entries es sm =
     (sm\<lparr>s_last_applied := last_or (s_last_applied sm) (map (Some \<circ> e_log_id) es),
         s_last_membership := last_or (s_last_membership sm) (memberships_of es),
         s_decision := last_or (s_decision sm) (map Some (decisions_of es))\<rparr>,
      decisions_of es \<noteq> []) \<and>
   fst (apply_entries (es @ es2) sm) = fst (apply_entries es2 (fst (apply_entries es sm)))"
proof
  have "fst (foldl apply_entry (sm', b) xs) = fst (foldl apply_entry (sm', c) xs)"
    for sm' :: "('a, 'b) sm_state" and b c xs
  proof (induction xs arbitrary: sm' b c)
    case (Cons x xs)
    then show ?case
      by (cases "e_payload x") (simp_all add: apply_entry_def Let_def)
  qed simp
  then show "fst (apply_entries (es @ es2) sm) = fst (apply_entries es2 (fst (apply_entries es sm)))"
    unfolding apply_entries_def foldl_append by (metis prod.collapse)
qed (rule apply_entries_spec)

text \<open>
  C31: The decision shown to the supervisor changes only when the state machine that contains it
  is on disk: after any call that changed it, a crash leaves exactly that state machine.
\<close>

theorem decision_published_only_when_durable:
  assumes "codec_ok ser de" "target_ok (m_path m)" "all_synced s (m_path m)"
    and "sm_step disp ser de (f, x) m s = (a, m', tr)"
    and "shared_current m' \<noteq> shared_current m"
  shows "shared_current m' = s_decision (m_sm m') \<and>
    recovered de dflt (m_path m) (last tr) = {Loaded (m_sm m')}"
proof -
  have "a \<and> shared_current m' = s_decision (m_sm m')"
    using assms(4,5)
    by (cases x) (auto simp: apply_sm_def build_snapshot_def install_snapshot_sm_def shared_set_def
        shared_current_def Let_def case_prod_unfold split: option.splits prod.splits sum.splits if_splits)
  then show ?thesis
    using sm.step_acked [of ser de "m_path m" s m disp "(f, x)" m' tr dflt] assms(1-4)
    by (simp add: disk_ok_def)
qed

theorem decision_published_only_when_durable_witness:
  "recovered (table_de sm_table) (default_sm_state ()) (m_path sm_ex)
     (last (snd (snd (sm_step (\<lambda>_. []) (table_ser sm_table) (table_de sm_table)
       (\<lambda>_. None, Apply [entry_ex]) sm_ex disk_example)))) = {Loaded sm_decided}"
proof -
  let ?c = "sm_step (\<lambda>_. []) (table_ser sm_table) (table_de sm_table) (\<lambda>_. None, Apply [entry_ex]) sm_ex disk_example"
  have m: "fst (snd ?c) = \<lparr>m_path = ''d/s.json'', m_sm = sm_decided, m_snapshot = None,
      m_snapshot_idx = 0, m_shared = Some \<lparr>dec_seq = 1, dec_primary = 2\<rparr>\<rparr>"
    using example_apply(2) by simp
  have "?c = (fst ?c, fst (snd ?c), snd (snd ?c))" by (simp only: prod.collapse)
  moreover have "shared_current (fst (snd ?c)) \<noteq> shared_current sm_ex"
    unfolding m by (simp add: shared_current_def example_defs)
  ultimately show ?thesis
    using decision_published_only_when_durable [OF example_codecs(2) example_disk(4,5), of "\<lambda>_. []"
        "\<lambda>_. None" "Apply [entry_ex]" "fst ?c" "fst (snd ?c)" "snd (snd ?c)" "default_sm_state ()"]
    unfolding m by simp
qed

text \<open>
  A decision that an acknowledged \<open>apply\<close> published is never taken back: as long as later
  calls only bring decisions of the same or a higher number, a crash at any point of them
  leaves a loadable state machine whose decision has at least that number.
\<close>

lemma published_decision_never_regresses:
  assumes "codec_ok ser de" "target_ok (m_path m)" "all_synced s (m_path m)"
    and "apply_sm ser f es m s = (Ok us, m1, tr)" "decisions_of es \<noteq> []"
    and "list_all (\<lambda>(_, x). decides_from (dec_seq (last (decisions_of es))) de x) xs"
    and "run_store (sm_step disp ser de) xs m1 (last tr) = (ms, ts)" "t \<in> set ts"
    and "got \<in> recovered de dflt (m_path m) t"
  shows "shared_current m1 = Some (last (decisions_of es)) \<and>
    (\<exists>sm' d. got = Loaded sm' \<and> s_decision sm' = Some d \<and> dec_seq (last (decisions_of es)) \<le> dec_seq d)"
proof -
  let ?k = "dec_seq (last (decisions_of es))"
  define P where "P = (\<lambda>n :: ('a, 'b) state_machine. decided_at_least ?k (m_sm n))"
  have step: "sm_step disp ser de (f, Apply es) m s = (True, m1, tr)" using assms(4) by simp
  have dec: "s_decision (m_sm m1) = Some (last (decisions_of es))"
    using sm_step_state [OF step] assms(5) by (simp add: apply_entries_spec last_or_def last_map)
  then have P1: "P m1" by (simp add: P_def decided_at_least_def)
  have "recovered de dflt (m_path m) t \<subseteq> (\<lambda>n. Loaded (m_sm n)) ` {n. P n}"
  proof (rule sm.acked_recovers [where P = P, OF _ step assms(7,8) P1])
    show "disk_ok ser de (m_path m) s \<and> m_path m = m_path m"
      using assms(1-3) by (simp add: disk_ok_def)
    show "P m'" if "y \<in> set xs" "P n" "sm_step disp ser de y n s' = (a, m', tr')" for y n s' a m' tr'
      using that decided_step [OF that(3)] assms(6) by (auto simp: P_def list_all_iff)
  qed
  moreover have "shared_current m1 = s_decision (m_sm m1)"
    using assms(4,5) by (auto simp: apply_sm_def apply_entries_spec shared_set_def shared_current_def
        Let_def split: prod.splits sum.splits)
  ultimately show ?thesis
    using assms(9) dec by (auto simp: P_def decided_at_least_def split: option.splits)
qed

lemma published_decision_never_regresses_witness:
  "let c = apply_sm (table_ser sm_table) (\<lambda>_. None) [entry_ex] sm_ex disk_example;
       run = run_store (sm_step (\<lambda>_. []) (table_ser sm_table) (table_de sm_table))
         [(\<lambda>_. Some 0, Apply [entry_ex]), (\<lambda>_. None, BuildSnapshot)] (fst (snd c)) (last (snd (snd c)))
   in recovered (table_de sm_table) (default_sm_state ()) (m_path sm_ex) (last (snd run)) \<subseteq>
        {got. \<exists>sm' d. got = Loaded sm' \<and> s_decision sm' = Some d \<and> 1 \<le> dec_seq d}"
proof -
  let ?c = "apply_sm (table_ser sm_table) (\<lambda>_. None) [entry_ex] sm_ex disk_example"
  let ?xs = "[(\<lambda>_. Some 0, Apply [entry_ex]), (\<lambda>_. None, BuildSnapshot)]"
  let ?run = "run_store (sm_step (\<lambda>_. []) (table_ser sm_table) (table_de sm_table)) ?xs
    (fst (snd ?c)) (last (snd (snd ?c)))"
  have c: "?c = (Ok [()], fst (snd ?c), snd (snd ?c))"
    using example_apply(1) by (metis prod.collapse)
  have d: "decisions_of [entry_ex] = [\<lparr>dec_seq = 1, dec_primary = 2\<rparr>]"
    by (simp add: decisions_of_def map_filter_def entry_ex_def)
  have keeps: "list_all (\<lambda>(_, x). decides_from (dec_seq (last (decisions_of [entry_ex])))
      (table_de sm_table) x) ?xs" and ne: "decisions_of [entry_ex] \<noteq> []"
    by (simp_all add: d)
  note use = published_decision_never_regresses [OF example_codecs(2) example_disk(4,5) c ne keeps
      prod.collapse [symmetric] run_store_last, THEN conjunct2, unfolded d last.simps if_True simp_thms]
  show ?thesis
    unfolding Let_def using use by (intro subsetI CollectI) simp
qed

text \<open>
  C32: A snapshot carries the whole state machine: installing on another node what one node built
  gives that node the same applied state and decision, published and on its disk, and both
  nodes then offer the same snapshot.
\<close>

theorem snapshot_transfers_the_state_machine:
  assumes "codec_ok ser de" "target_ok (m_path b)" "all_synced s (m_path b)"
    and "build_snapshot disp ser a = (Ok snap, a')"
    and "install_snapshot_sm ser de f (sn_meta snap) (sn_data snap) b s = (Ok u, b', tr)"
  shows "m_sm b' = m_sm a \<and> m_sm a' = m_sm a \<and> shared_current b' = s_decision (m_sm a) \<and>
    get_current_snapshot b' = Some snap \<and> get_current_snapshot a' = Some snap \<and>
    applied_state b' = (m_last_log_id (sn_meta snap), m_last_membership (sn_meta snap)) \<and>
    recovered de dflt (m_path b) (last tr) = {Loaded (m_sm a)}"
proof -
  obtain bs where bs: "ser (m_sm a) = Some bs" "sn_data snap = bs"
    and meta: "m_last_log_id (sn_meta snap) = s_last_applied (m_sm a)"
      "m_last_membership (sn_meta snap) = s_last_membership (m_sm a)"
    and a': "m_sm a' = m_sm a" "m_snapshot a' = Some snap"
    using assms(4) by (auto simp: build_snapshot_def Let_def split: option.splits)
  have de: "de bs = Some (m_sm a)" using assms(1) bs(1) by (simp add: codec_ok_def)
  then have b': "m_sm b' = m_sm a" "m_snapshot b' = Some snap" "m_shared b' = s_decision (m_sm a)"
    using assms(5) bs(2)
    by (auto simp: install_snapshot_sm_def shared_set_def Let_def split: prod.splits sum.splits)
  have step: "sm_step disp ser de (f, InstallSnapshot (sn_meta snap) (sn_data snap)) b s = (True, b', tr)"
    using assms(5) by simp
  show ?thesis
    using sm.step_acked [of ser de "m_path b" s b, OF _ step] assms(1-3) b' a' meta
    by (simp add: shared_current_def get_current_snapshot_def applied_state_def disk_ok_def)
qed

theorem snapshot_transfers_the_state_machine_witness:
  "let a = fst (snd (apply_sm (table_ser sm_table) (\<lambda>_. None) [entry_ex] sm_ex disk_example));
       snap = \<lparr>sn_meta = \<lparr>m_last_log_id = Some (e_log_id entry_ex),
         m_last_membership = s_last_membership sm_decided, m_snapshot_id = ''1-1-1''\<rparr>, sn_data = [1]\<rparr>;
       c = install_snapshot_sm (table_ser sm_table) (table_de sm_table) (\<lambda>_. None) (sn_meta snap) (sn_data snap)
         sm_ex disk_example
   in shared_current (fst (snd c)) = Some \<lparr>dec_seq = 1, dec_primary = 2\<rparr>"
proof -
  let ?a = "fst (snd (apply_sm (table_ser sm_table) (\<lambda>_. None) [entry_ex] sm_ex disk_example))"
  let ?snap = "\<lparr>sn_meta = \<lparr>m_last_log_id = Some (e_log_id entry_ex),
    m_last_membership = s_last_membership sm_decided, m_snapshot_id = ''1-1-1''\<rparr>, sn_data = [1]\<rparr>"
  let ?c = "install_snapshot_sm (table_ser sm_table) (table_de sm_table) (\<lambda>_. None) (sn_meta ?snap)
    (sn_data ?snap) sm_ex disk_example"
  have show1: "show_u64 1 = ''1''" "show_nat 1 = ''1''" by code_simp+
  have build: "build_snapshot show_nat (table_ser sm_table) ?a = (Ok ?snap, snd (build_snapshot show_nat (table_ser sm_table) ?a))"
    unfolding example_apply(2)
    by (simp add: build_snapshot_def Let_def snapshot_id_def example_defs show1 [unfolded One_nat_def])
  have "fst ?c = Ok ()"
    by (simp add: install_snapshot_sm_def sm_persist_def atomic_write_def atomic_write_ops_def Let_def
        table_de_def example_defs case_prod_unfold)
  then have "?c = (Ok (), fst (snd ?c), snd (snd ?c))" by (metis prod.collapse)
  from snapshot_transfers_the_state_machine [OF example_codecs(2) example_disk(4,5) build this]
  show ?thesis by (simp add: Let_def example_apply(2) sm_decided_def)
qed

section \<open>Restarting a node\<close>

text \<open>
  C14: A node can always start again: from a disk on which it started once, after any sequence of
  calls on its two stores, each failing where it may, and a power loss at any point, \<open>open\<close>
  does not panic; it finds a log and a state machine that the stores held in memory, and the
  disk is again one from which the node started.
\<close>

theorem node_restarts_after_any_crash:
  assumes "codec_ok ser_l de_l" "codec_ok ser_m de_m" "d \<noteq> []" "settled s"
    and "open_store de_l de_m mem0 True d i s = Loaded n"
    and "run_store (node_step ser_l disp ser_m de_m) xs n s = (ms, ts)" "t \<in> set ts"
    and "crashes t t'"
  shows "settled t' \<and> (\<exists>(ls, _) \<in> set ms. \<exists>(_, m) \<in> set ms. open_store de_l de_m mem0 True d i t' =
    Loaded (open_log (log_path d i) (l_state ls), open_sm (sm_path d i) (m_sm m)))"
proof -
  let ?lp = "log_path d i" and ?sp = "sm_path d i"
  let ?ld = "default_log_state :: ('a, 'b, 'c) log_state" and ?md = "default_sm_state mem0 :: ('b, 'c) sm_state"
  obtain lst mst where l: "load de_l ?ld (fs_read True s ?lp) = Loaded lst"
    and m: "load de_m ?md (fs_read True s ?sp) = Loaded mst"
    and n: "n = (open_log ?lp lst, open_sm ?sp mst)"
    using assms(5) by (auto simp: open_store_def split: loaded.splits)
  note settled = settled_recovered [OF assms(4)]
  have start: "node_ok ser_l de_l ser_m de_m mem0 ?lp ?sp {n} s"
    using assms(1,2) store_paths [OF assms(3)]
    by (simp add: settled node_ok_def disk_ok_def l m n open_log_def open_sm_def)
  have "node_ok ser_l de_l ser_m de_m mem0 ?lp ?sp ({n} \<union> set ms) t"
    using node_run_ok [of ser_l de_l ser_m de_m mem0 "fst n" "snd n" "{n}" s disp xs ms ts t] start
      store_paths(3-5) [OF assms(3)] assms(6,7) by (simp add: n open_log_def open_sm_def)
  moreover have "n \<in> set ms" using run_store_head [OF assms(6)] by simp
  ultimately have ok: "node_ok ser_l de_l ser_m de_m mem0 ?lp ?sp (set ms) t"
    by (simp add: insert_absorb)
  have "load de_l ?ld (fs_read True t' ?lp) \<in> (\<lambda>(ls, m). Loaded (l_state ls)) ` set ms"
    "load de_m ?md (fs_read True t' ?sp) \<in> (\<lambda>(ls, m). Loaded (m_sm m)) ` set ms"
    using ok load_after_crash [OF assms(8), of de_l ?ld ?lp] load_after_crash [OF assms(8), of de_m ?md ?sp]
    by (simp_all add: node_ok_def subset_eq)
  then show ?thesis
    using crashes_settled [OF assms(8)] by (force simp: open_store_def)
qed

definition new_disk :: fs where
  "new_disk = \<lparr>dir = \<lambda>_. None, olds = \<lambda>_. []\<rparr>"

theorem node_restarts_after_any_crash_witness:
  "let n = (open_log (log_path ''d'' 1) default_log_state, open_sm (sm_path ''d'' 1) (default_sm_state ()));
       run = run_store (node_step (table_ser log_table) (\<lambda>_. []) (table_ser sm_table) (table_de sm_table)) [] n new_disk
   in \<exists>(ls, _) \<in> set (fst run). \<exists>(_, m) \<in> set (fst run).
        open_store (table_de log_table) (table_de sm_table) () True ''d'' 1 new_disk =
          Loaded (open_log (log_path ''d'' 1) (l_state ls), open_sm (sm_path ''d'' 1) (m_sm m))"
proof -
  let ?n = "(open_log (log_path ''d'' 1) default_log_state, open_sm (sm_path ''d'' 1) (default_sm_state ()))"
  have "open_store (table_de log_table) (table_de sm_table) () True ''d'' 1 new_disk = Loaded ?n"
    by (simp add: open_store_def load_def fs_read_def new_disk_def)
  moreover have "settled new_disk" "crashes new_disk new_disk"
    by (simp_all add: settled_def crashes_def crash_may_def entries_def new_disk_def)
  ultimately show ?thesis
    using node_restarts_after_any_crash [OF example_codecs, of "''d''" new_disk "()" 1 ?n "\<lambda>_. []" "[]"
        "[?n]" "[new_disk]" new_disk new_disk]
    by (simp add: Let_def)
qed

end
