(* ===== verification/Frames.thy ===== *)
theory Frames
  imports Failover
begin

text \<open>
  \<open>src/rpc.rs\<close>, the wire and the server side: length-prefixed frames, the dispatch of a
  Raft request, the loop that serves one connection, and the gossip frame a node sends.
  The Raft instance and its JSON coding are the libraries \<open>openraft\<close> and \<open>serde_json\<close>:
  they are the fields of \<open>raft_api\<close>, a parameter of the definitions.
\<close>

section \<open>Frames\<close>

datatype io_error = UnexpectedEof | InvalidData

definition max_frame :: nat where
  "max_frame = 4 * 1024 * 1024"

text \<open>The length is cast to \<open>u32\<close>, which keeps its low 32 bits.\<close>

definition write_frame :: "bytes \<Rightarrow> bytes" where
  "write_frame bs = to_be_u32 (word_of_nat (length bs)) @ bs"

text \<open>
  The stream is the list of bytes it still delivers before it ends or fails;
  \<open>read_exact\<close> fails when they run out.
\<close>

definition read_exact :: "nat \<Rightarrow> bytes \<Rightarrow> (io_error, bytes \<times> bytes) result" where
  "read_exact k bs = (if k \<le> length bs then Ok (take k bs, drop k bs) else Err UnexpectedEof)"

definition read_frame :: "bytes \<Rightarrow> (io_error, bytes \<times> bytes) result" where
  "read_frame bs =
     (case read_exact 4 bs of
        Err e \<Rightarrow> Err e
      | Ok (len, rest) \<Rightarrow>
          (let k = unat (from_be_u32 len)
           in if k > max_frame then Err InvalidData else read_exact k rest))"

lemma read_write_frame:
  "length bs < 2 ^ 32 \<Longrightarrow>
     read_frame (write_frame bs @ rest) =
       (if length bs > max_frame then Err InvalidData else Ok (bs, rest))"
  by (simp add: read_frame_def write_frame_def read_exact_def Let_def unat_of_nat)

interpretation frame: stream_codec write_frame "\<lambda>bs. ok (read_frame bs)"
    "\<lambda>bs. length bs \<le> max_frame"
  by unfold_locales (simp add: read_write_frame max_frame_def)

lemma read_frame_consumes: "read_frame bs = Ok (frame, rest) \<Longrightarrow> length rest < length bs"
  by (auto simp: read_frame_def read_exact_def Let_def split: if_splits)

section \<open>Dispatching a Raft request\<close>

definition kind_raft :: u8 where "kind_raft = 0"
definition kind_gossip :: u8 where "kind_gossip = 1"
definition rpc_append :: u8 where "rpc_append = 0"
definition rpc_vote :: u8 where "rpc_vote = 1"
definition rpc_snapshot :: u8 where "rpc_snapshot = 2"

text \<open>
  Per request kind: \<open>serde_json::from_slice\<close> of the request, the handler of the Raft
  instance \<open>'r\<close>, and \<open>serde_json::to_vec\<close> of its result.
\<close>

record ('q, 'a, 'r) rpc_handler =
  de_req :: "bytes \<Rightarrow> 'q option"
  run_req :: "'q \<Rightarrow> 'r \<Rightarrow> 'a \<times> 'r"
  ser_res :: "'a \<Rightarrow> bytes option"

record ('aq, 'aa, 'vq, 'va, 'sq, 'sa, 'r) raft_api =
  append_rpc :: "('aq, 'aa, 'r) rpc_handler"
  vote_rpc :: "('vq, 'va, 'r) rpc_handler"
  snapshot_rpc :: "('sq, 'sa, 'r) rpc_handler"

definition serve :: "('q, 'a, 'r) rpc_handler \<Rightarrow> bytes \<Rightarrow> 'r \<Rightarrow> bytes option \<times> 'r" where
  "serve h body raft =
     (case de_req h body of
        None \<Rightarrow> (None, raft)
      | Some req \<Rightarrow> (let (res, raft') = run_req h req raft in (ser_res h res, raft')))"

text \<open>The slot is empty until the Raft instance has been created.\<close>

definition dispatch_raft ::
    "('aq, 'aa, 'vq, 'va, 'sq, 'sa, 'r) raft_api \<Rightarrow> bytes \<Rightarrow> 'r option \<Rightarrow> bytes option \<times> 'r option"
where
  "dispatch_raft api payload slot =
     (case payload of
        [] \<Rightarrow> (None, slot)
      | tag # body \<Rightarrow>
          (case slot of
             None \<Rightarrow> (None, slot)
           | Some raft \<Rightarrow> map_prod id Some
               (if tag = rpc_append then serve (append_rpc api) body raft
                else if tag = rpc_vote then serve (vote_rpc api) body raft
                else if tag = rpc_snapshot then serve (snapshot_rpc api) body raft
                else (None, raft))))"

section \<open>Serving a connection\<close>

text \<open>
  The state a connection handler works on: the shared Raft slot, the channel of received
  gossip (oldest first), and the replies written to this stream.
\<close>

record 'r server =
  slot :: "'r option"
  gossip_in :: "(u64 \<times> bytes) list"
  replies :: "bytes list"

definition accept_gossip :: "u64 set \<Rightarrow> bytes \<Rightarrow> 'r server \<Rightarrow> 'r server" where
  "accept_gossip voters frame sv =
     (if length frame \<ge> 9 then
        (let from = from_be_u64 (take 8 (drop 1 frame))
         in if from \<in> voters then sv\<lparr>gossip_in := gossip_in sv @ [(from, drop 9 frame)]\<rparr> else sv)
      else sv)"

text \<open>
  One frame; the flag says whether the loop goes on. \<open>can_write\<close> is whether the stream
  takes the next reply, given how many it took.
\<close>

definition handle_frame ::
    "('aq, 'aa, 'vq, 'va, 'sq, 'sa, 'r) raft_api \<Rightarrow> u64 set \<Rightarrow> (nat \<Rightarrow> bool) \<Rightarrow> bytes \<Rightarrow>
       'r server \<Rightarrow> bool \<times> 'r server" where
  "handle_frame api voters can_write frame sv =
     (case frame of
        [] \<Rightarrow> (False, sv)
      | kind # payload \<Rightarrow>
          if kind = kind_gossip then (True, accept_gossip voters frame sv)
          else if kind = kind_raft then
            (case dispatch_raft api payload (slot sv) of
               (None, slot') \<Rightarrow> (False, sv\<lparr>slot := slot'\<rparr>)
             | (Some resp, slot') \<Rightarrow>
                 if can_write (length (replies sv))
                 then (True, sv\<lparr>slot := slot', replies := replies sv @ [write_frame resp]\<rparr>)
                 else (False, sv\<lparr>slot := slot'\<rparr>))
          else (False, sv))"

function handle_conn ::
    "('aq, 'aa, 'vq, 'va, 'sq, 'sa, 'r) raft_api \<Rightarrow> u64 set \<Rightarrow> (nat \<Rightarrow> bool) \<Rightarrow> bytes \<Rightarrow>
       'r server \<Rightarrow> 'r server" where
  "handle_conn api voters can_write stream sv =
     (case read_frame stream of
        Err _ \<Rightarrow> sv
      | Ok (frame, rest) \<Rightarrow>
          (case handle_frame api voters can_write frame sv of
             (True, sv') \<Rightarrow> handle_conn api voters can_write rest sv'
           | (False, sv') \<Rightarrow> sv'))"
  by pat_completeness auto
termination
  by (relation "measure (\<lambda>(api, voters, can_write, stream, sv). length stream)")
    (auto dest: read_frame_consumes)

declare handle_conn.simps [simp del]

section \<open>Accepting connections\<close>

text \<open>
  \<open>spawn_server\<close>: a listener that tokio takes over is polled for ever; each accepted connection,
  given by the bytes that arrive on it, gets a task of its own that runs \<open>handle_conn\<close> on it,
  and an error delays the next poll only.
\<close>

datatype accept = Accepted bytes | AcceptError

definition spawn_server :: "bool \<Rightarrow> accept list \<Rightarrow> bytes list" where
  "spawn_server usable accepts =
     (if usable then List.map_filter (\<lambda>a. case a of Accepted stream \<Rightarrow> Some stream | AcceptError \<Rightarrow> None) accepts
      else [])"

section \<open>Broadcasting gossip\<close>

definition gossip_frame :: "u64 \<Rightarrow> bytes \<Rightarrow> bytes" where
  "gossip_frame from payload = kind_gossip # to_be_u64 from @ payload"

text \<open>\<open>GossipHandle::broadcast\<close> puts the frame on the queue of every peer.\<close>

definition broadcast :: "u64 \<Rightarrow> bytes \<Rightarrow> bytes list list \<Rightarrow> bytes list list" where
  "broadcast from payload txs = map (\<lambda>tx. tx @ [gossip_frame from payload]) txs"

text \<open>
  The sender task of one peer: its queue, whether it holds a connection, and the frames
  written on the current connection. A wake-up drains the queue to the newest frame.
\<close>

record sender =
  queue :: "bytes list"
  connected :: bool
  on_wire :: "bytes list"

definition sender_step :: "bool \<Rightarrow> bool \<Rightarrow> sender \<Rightarrow> sender" where
  "sender_step connect_ok write_ok s =
     (if queue s = [] then s
      else let frame = last (queue s);
               s1 = s\<lparr>queue := []\<rparr>;
               s2 = (if connected s1 then s1
                     else if connect_ok then s1\<lparr>connected := True, on_wire := []\<rparr> else s1)
           in if connected s2 then
                (if write_ok then s2\<lparr>on_wire := on_wire s2 @ [frame]\<rparr> else s2\<lparr>connected := False\<rparr>)
              else s2)"

definition gossip_targets :: "u64 \<Rightarrow> (u64 \<times> string) list \<Rightarrow> string list" where
  "gossip_targets my_id peers = map snd (filter (\<lambda>(id, _). id \<noteq> my_id) peers)"

section \<open>Lemmas\<close>

lemma handle_gossip_frame:
  "handle_frame api voters w (gossip_frame from payload) sv =
     (True, if from \<in> voters then sv\<lparr>gossip_in := gossip_in sv @ [(from, payload)]\<rparr> else sv)"
  by (simp add: handle_frame_def gossip_frame_def accept_gossip_def Let_def kind_gossip_def)

lemma handle_conn_frame:
  "length frame \<le> max_frame \<Longrightarrow>
     handle_conn api voters w (write_frame frame @ rest) sv =
       (case handle_frame api voters w frame sv of
          (True, sv') \<Rightarrow> handle_conn api voters w rest sv' | (False, sv') \<Rightarrow> sv')"
  by (subst handle_conn.simps) (simp add: read_write_frame max_frame_def)

lemma handle_conn_end: "handle_conn api voters w [] sv = sv"
  by (subst handle_conn.simps) (simp add: read_frame_def read_exact_def)

text \<open>What a connection handler keeps, whatever bytes arrive.\<close>

lemma handle_frame_gossip:
  "snd (handle_frame api voters w frame sv) = sv' \<Longrightarrow>
     \<exists>new. gossip_in sv' = gossip_in sv @ new \<and> fst ` set new \<subseteq> voters"
  by (auto simp: handle_frame_def accept_gossip_def Let_def split: list.splits option.splits
      prod.splits if_splits)

lemma handle_conn_gossip:
  "\<exists>new. gossip_in (handle_conn api voters w stream sv) = gossip_in sv @ new \<and>
     fst ` set new \<subseteq> voters"
proof (induction api voters w stream sv rule: handle_conn.induct)
  case (1 api voters w stream sv)
  show ?case
  proof (cases "read_frame stream")
    case (Inl e)
    then show ?thesis by (subst handle_conn.simps) simp
  next
    case (Inr fr)
    obtain frame rest where fr: "fr = (frame, rest)" by (cases fr)
    obtain b sv' where h: "handle_frame api voters w frame sv = (b, sv')" by fastforce
    obtain new where new: "gossip_in sv' = gossip_in sv @ new" "fst ` set new \<subseteq> voters"
      using handle_frame_gossip [of api voters w frame sv sv'] h by auto
    show ?thesis
    proof (cases b)
      case True
      then have bT: "b = True" by simp
      obtain more where "gossip_in (handle_conn api voters w rest sv') = gossip_in sv' @ more"
        "fst ` set more \<subseteq> voters"
        using "1.IH" [OF Inr fr [symmetric] h [symmetric] bT] by auto
      then show ?thesis using new Inr fr h True
        by (subst handle_conn.simps) (auto intro!: exI [of _ "new @ more"])
    next
      case False
      then show ?thesis using new Inr fr h by (subst handle_conn.simps) auto
    qed
  qed
qed

lemma handle_conn_gossip_stream:
  assumes "from \<in> voters" "list_all (\<lambda>p. length p + 9 \<le> max_frame) ps"
  shows "handle_conn api voters w (concat (map (\<lambda>p. write_frame (gossip_frame from p)) ps) @ rest) sv =
     handle_conn api voters w rest (sv\<lparr>gossip_in := gossip_in sv @ map (Pair from) ps\<rparr>)"
  using assms(2)
proof (induction ps arbitrary: sv)
  case (Cons p ps)
  have "length (gossip_frame from p) \<le> max_frame"
    using Cons.prems by (simp add: gossip_frame_def)
  then show ?case
    using Cons assms(1) by (simp add: handle_conn_frame handle_gossip_frame)
qed simp

section \<open>Properties\<close>

text \<open>
  Any sequence of frames of at most 4 MiB written one after another is read back frame by
  frame, whatever follows it on the stream.
\<close>

lemma frames_round_trip:
  assumes "list_all (\<lambda>f. length f \<le> max_frame) fs"
  shows "read_all (\<lambda>bs. ok (read_frame bs)) (length fs) (concat (map write_frame fs) @ rest) = (fs, rest)"
  using assms by (rule frame.read_all_concat)

lemma frames_round_trip_witness:
  "read_all (\<lambda>bs. ok (read_frame bs)) 2 (write_frame [1, 2] @ write_frame [] @ [7]) =
     ([[1, 2], []], [7])"
  using frames_round_trip [of "[[1, 2], []]" "[7]"] by (simp add: max_frame_def numeral_2_eq_2)

text \<open>
  C23: The reader refuses exactly what the writer should never have sent: a frame of more than
  4 MiB (and less than 4 GiB) is rejected as invalid data by the receiver, although the sender
  writes it without complaint.
\<close>

theorem oversized_frame_rejected:
  assumes "max_frame < length bs" "length bs < 2 ^ 32"
  shows "read_frame (write_frame bs @ rest) = Err InvalidData \<and>
     handle_conn api voters w (write_frame bs @ rest) sv = sv"
  using assms by (subst handle_conn.simps) (simp add: read_write_frame)

theorem oversized_frame_rejected_witness:
  "\<forall>api voters w sv. read_frame (write_frame (replicate (Suc max_frame) 0) @ []) = Err InvalidData \<and>
     handle_conn api voters w (write_frame (replicate (Suc max_frame) 0) @ []) sv = sv"
  by (intro allI oversized_frame_rejected) (simp_all add: max_frame_def)

text \<open>
  C24: Whatever bytes a peer sends, the connection handler only ever appends to the gossip
  channel, and only messages whose sender is a configured voter.
\<close>

theorem only_voters_gossip_is_accepted:
  "\<exists>new. gossip_in (handle_conn api voters w stream sv) = gossip_in sv @ new \<and>
     fst ` set new \<subseteq> voters"
  by (rule handle_conn_gossip)

text \<open>
  Gossip reaches the supervisor: the frames a voter's sender writes on a connection arrive
  on the receiver's channel in order, and each decodes to the LSN, recovery flag, reconfirm
  flag and decision number the voter broadcast.
\<close>

lemma broadcast_gossip_is_delivered:
  assumes "from \<in> voters"
  shows "map (map_prod id decode_gossip) (gossip_in (handle_conn api voters w
      (concat (map (\<lambda>(l, r, c, s). write_frame (gossip_frame from (encode_gossip l r c s))) ms)) sv)) =
    map (map_prod id decode_gossip) (gossip_in sv) @
    map (\<lambda>(l, r, c, s). (from, Some \<lparr>g_lsn = l, g_in_recovery = r, g_reconfirm = c, g_seq = s\<rparr>)) ms"
proof -
  let ?ps = "map (\<lambda>(l, r, c, s). encode_gossip l r c s) ms"
  have "list_all (\<lambda>p. length p + 9 \<le> max_frame) ?ps"
    by (auto simp: list_all_iff max_frame_def)
  then have "handle_conn api voters w
      (concat (map (\<lambda>p. write_frame (gossip_frame from p)) ?ps) @ []) sv =
      sv\<lparr>gossip_in := gossip_in sv @ map (Pair from) ?ps\<rparr>"
    using assms by (subst handle_conn_gossip_stream) (simp_all add: handle_conn_end)
  moreover have "map (\<lambda>p. write_frame (gossip_frame from p)) ?ps =
      map (\<lambda>(l, r, c, s). write_frame (gossip_frame from (encode_gossip l r c s))) ms"
    by auto
  ultimately have "handle_conn api voters w
      (concat (map (\<lambda>(l, r, c, s). write_frame (gossip_frame from (encode_gossip l r c s))) ms)) sv =
      sv\<lparr>gossip_in := gossip_in sv @ map (Pair from) ?ps\<rparr>"
    by (simp only: append_Nil2)
  then show ?thesis by (auto simp: decode_encode_gossip)
qed

lemma broadcast_gossip_is_delivered_witness:
  "\<forall>api w. map (map_prod id decode_gossip) (gossip_in (handle_conn api {1, 2} w
      (concat (map (\<lambda>(l, r, c, s). write_frame (gossip_frame 2 (encode_gossip l r c s)))
        [(5, True, False, 1)]))
      \<lparr>slot = (None :: unit option), gossip_in = [], replies = []\<rparr>)) =
    [(2, Some \<lparr>g_lsn = 5, g_in_recovery = True, g_reconfirm = False, g_seq = 1\<rparr>)]"
  by (intro allI, subst broadcast_gossip_is_delivered) auto

text \<open>
  A peer's sender never holds a backlog: after each wake-up its queue is empty, at most one
  frame went out, and it is the newest one queued; without a connection nothing is sent, and a
  failed write closes the connection so that the next wake-up reconnects.
\<close>

lemma sender_sends_newest_only:
  assumes "queue s \<noteq> []"
  shows "queue (sender_step c wr s) = [] \<and>
    (connected (sender_step c wr s) \<longleftrightarrow> (connected s \<or> c) \<and> wr) \<and>
    (connected (sender_step c wr s) \<longrightarrow>
       on_wire (sender_step c wr s) = (if connected s then on_wire s else []) @ [last (queue s)])"
  using assms by (simp add: sender_step_def Let_def)

lemma sender_sends_newest_only_witness:
  "on_wire (sender_step True True \<lparr>queue = [[1], [2]], connected = False, on_wire = []\<rparr>) = [[2]]"
  using sender_sends_newest_only [of "\<lparr>queue = [[1], [2]], connected = False, on_wire = []\<rparr>" True True]
  by simp

end
