(* ===== verification/Transport.thy ===== *)
theory Transport
  imports Frames
begin

text \<open>
  \<open>src/rpc.rs\<close>, the client side of a Raft RPC: \<open>Connection::call\<close> with its cached stream,
  and \<open>Connection::decode\<close>. The TCP stack under a deadline is a parameter: connecting, writing
  and reading, each of which may fail or run into the deadline.
\<close>

section \<open>Errors and the network\<close>

datatype net_failure = Elapsed | IoFailure

datatype 'e rpc_error =
    Unreachable net_failure
  | NetworkFailure net_failure
  | NetworkJson
  | RemoteError u64 'e

text \<open>
  \<open>'s\<close> is a TCP stream, \<open>'w\<close> the state of the network. Writing and reading return the
  stream they used; \<open>recv_exact k\<close> delivers \<open>k\<close> bytes or fails.
\<close>

record ('s, 'w) net_api =
  connect :: "string \<Rightarrow> 'w \<Rightarrow> (net_failure, 's) result \<times> 'w"
  send_all :: "'s \<Rightarrow> bytes \<Rightarrow> 'w \<Rightarrow> (net_failure, unit) result \<times> 's \<times> 'w"
  recv_exact :: "nat \<Rightarrow> 's \<Rightarrow> 'w \<Rightarrow> (net_failure, bytes) result \<times> 's \<times> 'w"

record 's connection =
  target :: u64
  addr :: string
  stream :: "'s option"

definition new_client :: "u64 \<Rightarrow> string \<Rightarrow> 's connection" where
  "new_client t a = \<lparr>target = t, addr = a, stream = None\<rparr>"

section \<open>Connection::call\<close>

text \<open>\<open>read_frame\<close> on a stream of the network.\<close>

definition recv_frame ::
    "('s, 'w) net_api \<Rightarrow> 's \<Rightarrow> 'w \<Rightarrow> (net_failure, bytes) result \<times> 's \<times> 'w" where
  "recv_frame net st w =
     (case recv_exact net 4 st w of
        (Err f, st1, w1) \<Rightarrow> (Err f, st1, w1)
      | (Ok len, st1, w1) \<Rightarrow>
          (let k = unat (from_be_u32 len)
           in if k > max_frame then (Err IoFailure, st1, w1) else recv_exact net k st1 w1))"

definition exchange ::
    "('s, 'w) net_api \<Rightarrow> 's \<Rightarrow> bytes \<Rightarrow> 'w \<Rightarrow> (net_failure, bytes) result \<times> 's \<times> 'w" where
  "exchange net st payload w =
     (case send_all net st (write_frame payload) w of
        (Err f, st1, w1) \<Rightarrow> (Err f, st1, w1)
      | (Ok _, st1, w1) \<Rightarrow> recv_frame net st1 w1)"

definition decode_resp ::
    "(bytes \<Rightarrow> ('e, 'a) result option) \<Rightarrow> u64 \<Rightarrow> bytes \<Rightarrow> ('e rpc_error, 'a) result" where
  "decode_resp de t resp =
     (case de resp of
        None \<Rightarrow> Err NetworkJson
      | Some (Ok a) \<Rightarrow> Ok a
      | Some (Err e) \<Rightarrow> Err (RemoteError t e))"

definition rpc_payload :: "u8 \<Rightarrow> bytes \<Rightarrow> bytes" where
  "rpc_payload rpc body = kind_raft # rpc # body"

text \<open>Connect, exchange on the fresh stream, keep it when the exchange succeeded.\<close>

definition call_fresh ::
    "('s, 'w) net_api \<Rightarrow> (bytes \<Rightarrow> ('e, 'a) result option) \<Rightarrow> bytes \<Rightarrow> 's connection \<Rightarrow> 'w \<Rightarrow>
       ('e rpc_error, 'a) result \<times> 's connection \<times> 'w" where
  "call_fresh net de payload c w =
     (case connect net (addr c) w of
        (Err f, w1) \<Rightarrow> (Err (Unreachable f), c, w1)
      | (Ok st, w1) \<Rightarrow>
          (case exchange net st payload w1 of
             (Err f, _, w2) \<Rightarrow> (Err (NetworkFailure f), c, w2)
           | (Ok resp, st', w2) \<Rightarrow>
               (decode_resp de (target c) resp, c\<lparr>stream := Some st'\<rparr>, w2)))"

definition call ::
    "('s, 'w) net_api \<Rightarrow> ('q \<Rightarrow> bytes option) \<Rightarrow> (bytes \<Rightarrow> ('e, 'a) result option) \<Rightarrow>
       u8 \<Rightarrow> 'q \<Rightarrow> 's connection \<Rightarrow> 'w \<Rightarrow> ('e rpc_error, 'a) result \<times> 's connection \<times> 'w" where
  "call net ser de rpc req c w =
     (case ser req of
        None \<Rightarrow> (Err NetworkJson, c, w)
      | Some body \<Rightarrow>
          (let payload = rpc_payload rpc body; c0 = c\<lparr>stream := None\<rparr>
           in case stream c of
                None \<Rightarrow> call_fresh net de payload c0 w
              | Some st \<Rightarrow>
                  (case exchange net st payload w of
                     (Ok resp, st', w1) \<Rightarrow>
                       (decode_resp de (target c) resp, c\<lparr>stream := Some st'\<rparr>, w1)
                   | (Err _, _, w1) \<Rightarrow> call_fresh net de payload c0 w1)))"

section \<open>Three kinds of request\<close>

definition append_entries where
  "append_entries net ser de req c w = call net ser de rpc_append req c w"

definition install_snapshot where
  "install_snapshot net ser de req c w = call net ser de rpc_snapshot req c w"

definition vote where
  "vote net ser de req c w = call net ser de rpc_vote req c w"

section \<open>Logging what is sent\<close>

text \<open>A network that also records everything it is asked to write.\<close>

definition logged :: "('s, 'w) net_api \<Rightarrow> ('s, 'w \<times> bytes list) net_api" where
  "logged net =
     \<lparr> connect = (\<lambda>a (w, l). case connect net a w of (r, w') \<Rightarrow> (r, (w', l))),
       send_all = (\<lambda>st p (w, l). case send_all net st p w of
          (r, st', w') \<Rightarrow> (r, st', (w', l @ [p]))),
       recv_exact = (\<lambda>k st (w, l). case recv_exact net k st w of
          (r, st', w') \<Rightarrow> (r, st', (w', l))) \<rparr>"

lemma exchange_logged:
  "exchange (logged net) st p (w, l) =
     (case exchange net st p w of (r, st', w') \<Rightarrow> (r, st', (w', l @ [write_frame p])))"
  by (auto simp: exchange_def recv_frame_def logged_def Let_def split: prod.split sum.split)

lemma connect_logged:
  "connect (logged net) a (w, l) = (case connect net a w of (r, w') \<Rightarrow> (r, (w', l)))"
  by (simp add: logged_def)

lemma call_fresh_logged:
  "\<exists>k \<le> 1. snd (snd (snd (call_fresh (logged net) de p c (w, l)))) = l @ replicate k (write_frame p)"
proof -
  obtain r w1 where c: "connect net (addr c) w = (r, w1)" by fastforce
  show ?thesis
  proof (cases r)
    case (Inl f)
    then show ?thesis using c by (intro exI [of _ 0]) (simp add: call_fresh_def connect_logged)
  next
    case (Inr st)
    then show ?thesis using c
      by (intro exI [of _ 1])
        (auto simp: call_fresh_def connect_logged exchange_logged split: prod.split sum.split)
  qed
qed

lemma call_fresh_stream:
  "call_fresh net de p c w = (r, c', w') \<Longrightarrow> stream c = None \<Longrightarrow>
     target c' = target c \<and> addr c' = addr c \<and>
     (stream c' = None \<longleftrightarrow> (\<exists>f. r = Err (Unreachable f) \<or> r = Err (NetworkFailure f)))"
  by (auto simp: call_fresh_def decode_resp_def split: prod.splits sum.splits option.splits)

section \<open>Properties\<close>

text \<open>
  C25: A call sends its request at most twice, and both times the same bytes: once on the cached
  stream and once more on a fresh one after the cached one failed.
\<close>

theorem call_sends_at_most_twice:
  assumes "ser req = Some body"
  shows "\<exists>k \<le> 2. snd (snd (snd (call (logged net) ser de rpc req c (w, l)))) =
     l @ replicate k (write_frame (rpc_payload rpc body))"
proof (cases "stream c")
  case None
  then show ?thesis
    using assms call_fresh_logged [of net de "rpc_payload rpc body" "c\<lparr>stream := None\<rparr>" w l]
    by (auto simp: call_def Let_def intro: order.trans [OF _ one_le_numeral])
next
  case (Some st)
  let ?p = "rpc_payload rpc body"
  obtain r st' w1 where e: "exchange net st ?p w = (r, st', w1)" by (metis prod_cases3)
  then have e': "exchange (logged net) st ?p (w, l) = (r, st', (w1, l @ [write_frame ?p]))"
    by (simp add: exchange_logged)
  show ?thesis
  proof (cases r)
    case (Inl f)
    obtain k where "k \<le> 1" "snd (snd (snd (call_fresh (logged net) de ?p
        (c\<lparr>stream := None\<rparr>) (w1, l @ [write_frame ?p])))) = (l @ [write_frame ?p]) @ replicate k (write_frame ?p)"
      using call_fresh_logged [of net de ?p "c\<lparr>stream := None\<rparr>" w1 "l @ [write_frame ?p]"] by blast
    then show ?thesis
      using assms Some e' Inl by (intro exI [of _ "Suc k"]) (simp add: call_def Let_def)
  next
    case (Inr resp)
    then show ?thesis
      using assms Some e' by (intro exI [of _ 1]) (simp add: call_def Let_def)
  qed
qed

definition flaky_net :: "(nat, unit) net_api" where
  "flaky_net =
     \<lparr> connect = (\<lambda>a w. (Ok 1, w)),
       send_all = (\<lambda>st p w. (if st = 0 then Err IoFailure else Ok (), st, w)),
       recv_exact = (\<lambda>k st w. (if k = 4 then Ok [0, 0, 0, 1] else Ok [9], st, w)) \<rparr>"

theorem call_sends_at_most_twice_witness:
  "\<exists>k \<le> 2. snd (snd (snd (call (logged flaky_net) (\<lambda>q. Some [q])
       (\<lambda>bs. Some (Ok bs :: (unit, bytes) result)) rpc_vote 5
       \<lparr>target = 2, addr = ''h:1'', stream = Some 0\<rparr> ((), [])))) =
     [] @ replicate k (write_frame (rpc_payload rpc_vote [5]))"
  by (rule call_sends_at_most_twice) simp

section \<open>Following the streams\<close>

text \<open>
  A network that numbers the streams it opens and records what is done on each, with the result.
\<close>

datatype net_op = Connected (stream_of: nat) | Sent (stream_of: nat) bool | Received (stream_of: nat) bool

fun op_failed :: "net_op \<Rightarrow> bool" where
  "op_failed (Connected k) = False"
| "op_failed (Sent k b) = (\<not> b)"
| "op_failed (Received k b) = (\<not> b)"

definition tagged :: "('s, 'w) net_api \<Rightarrow> (nat \<times> 's, 'w \<times> nat \<times> net_op list) net_api" where
  "tagged net =
     \<lparr> connect = (\<lambda>a (w, n, l). case connect net a w of
          (Err f, w') \<Rightarrow> (Err f, (w', n, l))
        | (Ok s, w') \<Rightarrow> (Ok (n, s), (w', Suc n, l @ [Connected n]))),
       send_all = (\<lambda>(k, s) p (w, n, l). case send_all net s p w of
          (r, s', w') \<Rightarrow> (r, (k, s'), (w', n, l @ [Sent k (is_ok r)]))),
       recv_exact = (\<lambda>m (k, s) (w, n, l). case recv_exact net m s w of
          (r, s', w') \<Rightarrow> (r, (k, s'), (w', n, l @ [Received k (is_ok r)]))) \<rparr>"

text \<open>One exchange on stream \<open>k\<close>: one request, then reads of which only the last may fail.\<close>

definition conversation :: "nat \<Rightarrow> net_op list \<Rightarrow> bool \<Rightarrow> bool" where
  "conversation k ops good \<longleftrightarrow> (\<exists>b rs. ops = Sent k b # map (Received k) rs \<and> (rs \<noteq> [] \<longrightarrow> b) \<and>
     list_all id (butlast rs) \<and> (good \<longrightarrow> b \<and> list_all id rs))"

lemma exchange_tagged:
  assumes "exchange (tagged net) (k, s) p (w, n, l) = (r, st', w1)"
  shows "\<exists>s' w' ops. st' = (k, s') \<and> w1 = (w', n, l @ ops) \<and> conversation k ops (is_ok r)"
proof -
  obtain r1 s1 w2 where e1: "send_all net s (write_frame p) w = (r1, s1, w2)" by (metis prod_cases3)
  show ?thesis
  proof (cases r1)
    case (Inl f)
    then show ?thesis using assms e1 by (auto simp: exchange_def tagged_def conversation_def)
  next
    case (Inr u)
    obtain r2 s2 w3 where e2: "recv_exact net 4 s1 w2 = (r2, s2, w3)" by (metis prod_cases3)
    have conv: "conversation k (Sent k True # map (Received k) rs) good"
      if "list_all id (butlast rs)" "good \<longrightarrow> list_all id rs" for rs good
      using that by (auto simp: conversation_def)
    show ?thesis
    proof (cases r2)
      case (Inl f)
      then show ?thesis using assms e1 e2 Inr conv [of "[False]" False]
        by (auto simp: exchange_def recv_frame_def tagged_def)
    next
      case (Inr len)
      obtain r3 s3 w4 where e3: "recv_exact net (unat (from_be_u32 len)) s2 w3 = (r3, s3, w4)" by (metis prod_cases3)
      show ?thesis
        using assms e1 e2 e3 \<open>r1 = Inr u\<close> Inr conv [of "[True]" False] conv [of "[True, is_ok r3]" "is_ok r3"]
        by (auto simp: exchange_def recv_frame_def tagged_def Let_def split: if_splits)
    qed
  qed
qed

lemma conversation_facts:
  assumes "conversation k ops good"
  shows "ops \<noteq> []" "x \<in> set ops \<Longrightarrow> stream_of x = k" "good \<Longrightarrow> x \<in> set ops \<Longrightarrow> \<not> op_failed x"
    "length (filter (\<lambda>x. \<exists>b. x = Sent k b) ops) = 1" "ops = xs @ x # ys \<Longrightarrow> op_failed x \<Longrightarrow> ys = []"
proof -
  obtain b rs where o: "ops = Sent k b # map (Received k) rs" "rs \<noteq> [] \<longrightarrow> b" "list_all id (butlast rs)"
    "good \<longrightarrow> b \<and> list_all id rs"
    using assms unfolding conversation_def by blast
  show "ops \<noteq> []" using o(1) by simp
  show "x \<in> set ops \<Longrightarrow> stream_of x = k" using o(1) by auto
  show "good \<Longrightarrow> x \<in> set ops \<Longrightarrow> \<not> op_failed x" using o(1,4) by (auto simp: list_all_iff)
  have "filter (\<lambda>x. \<exists>b. x = Sent k b) (map (Received k) rs) = []" by (induction rs) auto
  then show "length (filter (\<lambda>x. \<exists>b. x = Sent k b) ops) = 1" using o(1) by simp
  show "ys = []" if "ops = xs @ x # ys" "op_failed x"
  proof (cases xs)
    case Nil
    then show ?thesis using that o(1,2) by auto
  next
    case (Cons z zs)
    then have "map (Received k) rs = zs @ x # ys" using that(1) o(1) by simp
    then obtain as b' bs where rs: "rs = as @ b' # bs" "x = Received k b'" "ys = map (Received k) bs"
      by (auto simp: map_eq_append_conv map_eq_Cons_conv)
    have "bs = []"
      using o(3) that(2) unfolding rs(1,2) by (cases "bs = []") (auto simp: butlast_append list_all_iff)
    then show ?thesis using rs(3) by simp
  qed
qed

text \<open>Nothing is done on a stream after an operation on it failed.\<close>

definition never_reused :: "net_op list \<Rightarrow> bool" where
  "never_reused ops \<longleftrightarrow> (\<forall>xs x ys. ops = xs @ x # ys \<longrightarrow> op_failed x \<longrightarrow> stream_of x \<notin> stream_of ` set ys)"

lemma never_reused_append:
  assumes "never_reused as" "never_reused bs" "\<forall>x \<in> set as. stream_of x \<notin> stream_of ` set bs"
  shows "never_reused (as @ bs)"
  unfolding never_reused_def
proof (intro allI impI)
  fix xs x ys
  assume eq: "as @ bs = xs @ x # ys" and f: "op_failed x"
  then consider us where "as = xs @ x # us" "ys = us @ bs" | us where "bs = us @ x # ys"
    by (auto simp: append_eq_append_conv2 Cons_eq_append_conv append_eq_Cons_conv)
  then show "stream_of x \<notin> stream_of ` set ys"
    using assms f unfolding never_reused_def by cases fastforce+
qed

lemma conversation_never_reused: "conversation k ops good \<Longrightarrow> never_reused ops"
  unfolding never_reused_def using conversation_facts(5) by fastforce

lemma connected_conversation:
  assumes "conversation k ops good"
  shows "never_reused (Connected k # ops)"
  unfolding never_reused_def
proof (intro allI impI)
  fix xs x ys
  assume "Connected k # ops = xs @ x # ys" "op_failed x"
  then show "stream_of x \<notin> stream_of ` set ys"
    using conversation_never_reused [OF assms] unfolding never_reused_def by (cases xs) auto
qed

lemma call_fresh_tagged:
  assumes "call_fresh (tagged net) de p c (w, n, l) = (r, c', w1)" "stream c = None"
  shows "\<exists>w' n' ops. w1 = (w', n', l @ ops) \<and>
    (ops = [] \<and> stream c' = None \<or>
     (\<exists>cv good. ops = Connected n # cv \<and> conversation n cv good \<and>
       (if good then \<exists>s. stream c' = Some (n, s) else stream c' = None)))"
proof -
  obtain r1 w2 where e1: "connect net (addr c) w = (r1, w2)" by fastforce
  show ?thesis
  proof (cases r1)
    case (Inl f)
    then show ?thesis using assms e1 by (auto simp: call_fresh_def tagged_def)
  next
    case (Inr s)
    obtain r2 st' w3 where e2: "exchange (tagged net) (n, s) p (w2, Suc n, l @ [Connected n]) = (r2, st', w3)"
      by (metis prod_cases3)
    obtain s' w' ops where x: "st' = (n, s')" "w3 = (w', Suc n, (l @ [Connected n]) @ ops)" "conversation n ops (is_ok r2)"
      using exchange_tagged [OF e2] by blast
    have conn: "connect (tagged net) (addr c) (w, n, l) = (Ok (n, s), (w2, Suc n, l @ [Connected n]))"
      using e1 Inr by (simp add: tagged_def)
    show ?thesis
      using assms x by (cases r2) (auto simp: call_fresh_def conn e2)
  qed
qed

text \<open>
  Each stream is written to at most once; a stream that is cached in the end is the one on which
  the last operation was done, and no operation on it failed.
\<close>

definition sends_once :: "net_op list \<Rightarrow> bool" where
  "sends_once ops \<longleftrightarrow> (\<forall>k. length (filter (\<lambda>x. \<exists>b. x = Sent k b) ops) \<le> 1)"

definition caches_last :: "net_op list \<Rightarrow> (nat \<times> 's) connection \<Rightarrow> bool" where
  "caches_last ops c \<longleftrightarrow> (\<forall>k s. stream c = Some (k, s) \<longrightarrow>
     ops \<noteq> [] \<and> stream_of (last ops) = k \<and> (\<forall>x \<in> set ops. stream_of x = k \<longrightarrow> \<not> op_failed x))"

lemma filter_other_stream:
  "\<forall>x \<in> set ops. stream_of x = m \<Longrightarrow> k \<noteq> m \<Longrightarrow> filter (\<lambda>x. \<exists>b. x = Sent k b) ops = []"
  by (fastforce simp: filter_empty_conv)

lemma sends_once_append:
  assumes "sends_once as" "sends_once bs" "\<forall>x \<in> set as. stream_of x = k0" "\<forall>x \<in> set bs. stream_of x = k1" "k0 \<noteq> k1"
  shows "sends_once (as @ bs)"
  unfolding sends_once_def
proof
  fix k
  show "length (filter (\<lambda>x. \<exists>b. x = Sent k b) (as @ bs)) \<le> 1"
    using assms(1,2) filter_other_stream [OF assms(3), of k] filter_other_stream [OF assms(4), of k] assms(5)
    by (cases "k = k0") (simp_all add: sends_once_def)
qed

lemma conversation_sends_once: "conversation k ops good \<Longrightarrow> sends_once ops"
  unfolding sends_once_def
proof
  fix j
  assume c: "conversation k ops good"
  then have on: "\<forall>x \<in> set ops. stream_of x = k" using conversation_facts(2) by blast
  show "length (filter (\<lambda>x. \<exists>b. x = Sent j b) ops) \<le> 1"
    using filter_other_stream [OF on, of j] conversation_facts(4) [OF c] by (cases "j = k") simp_all
qed

lemma call_fresh_followed:
  assumes "call_fresh (tagged net) de p c (w, n, l) = (r, c', (w', n', l'))" "stream c = None"
  shows "\<exists>ops. l' = l @ ops \<and> never_reused ops \<and> (\<forall>x \<in> set ops. stream_of x = n) \<and> sends_once ops \<and>
    caches_last ops c' \<and> (stream c' = None \<or> (\<exists>s. stream c' = Some (n, s)))"
proof -
  obtain ops where l': "l' = l @ ops" and ops: "ops = [] \<and> stream c' = None \<or>
     (\<exists>cv good. ops = Connected n # cv \<and> conversation n cv good \<and>
       (if good then \<exists>s. stream c' = Some (n, s) else stream c' = None))"
    using call_fresh_tagged [OF assms] by auto
  from ops show ?thesis
  proof
    assume "ops = [] \<and> stream c' = None"
    then show ?thesis using l' by (simp add: never_reused_def sends_once_def caches_last_def)
  next
    assume "\<exists>cv good. ops = Connected n # cv \<and> conversation n cv good \<and>
       (if good then \<exists>s. stream c' = Some (n, s) else stream c' = None)"
    then obtain cv good where cv: "ops = Connected n # cv" "conversation n cv good"
      "if good then \<exists>s. stream c' = Some (n, s) else stream c' = None" by blast
    have all: "\<forall>x \<in> set ops. stream_of x = n" using cv(1) conversation_facts(2) [OF cv(2)] by auto
    then have last: "ops \<noteq> [] \<and> stream_of (last ops) = n" using cv(1) last_in_set by blast
    have "\<forall>x \<in> set ops. \<not> op_failed x" if "stream c' = Some (k, s)" for k s
      using that cv(1,3) conversation_facts(3) [OF cv(2)] by (cases good) auto
    then have "caches_last ops c'" using last cv(3) by (auto simp: caches_last_def split: if_splits)
    moreover have "sends_once ops" using conversation_sends_once [OF cv(2)] unfolding cv(1) by (simp add: sends_once_def)
    moreover have "never_reused ops" using connected_conversation [OF cv(2)] unfolding cv(1) .
    ultimately show ?thesis using l' all cv(3) by (auto split: if_splits)
  qed
qed

text \<open>A call whose cached stream did its work, and one whose cached stream failed.\<close>

lemma cached_followed:
  assumes "conversation k cv good" "stream c' = (if good then Some (k, s) else None)"
  shows "never_reused cv \<and> sends_once cv \<and> caches_last cv c'"
  using assms conversation_facts(1,2,3) [OF assms(1)] conversation_never_reused conversation_sends_once
  by (auto simp: caches_last_def split: if_splits)

lemma retried_followed:
  assumes "conversation k0 cv False" "never_reused ops" "\<forall>x \<in> set ops. stream_of x = n" "sends_once ops"
    and "caches_last ops c'" "stream c' = None \<or> (\<exists>s. stream c' = Some (n, s))" "k0 < n"
  shows "never_reused (cv @ ops) \<and> sends_once (cv @ ops) \<and> caches_last (cv @ ops) c'"
proof (intro conjI)
  have on: "\<forall>x \<in> set cv. stream_of x = k0" using conversation_facts(2) [OF assms(1)] by blast
  show "never_reused (cv @ ops)"
    using conversation_never_reused [OF assms(1)] assms(2,3,7) on by (intro never_reused_append) auto
  show "sends_once (cv @ ops)"
    using assms(7) by (intro sends_once_append [OF conversation_sends_once [OF assms(1)] assms(4) on assms(3)]) simp
  show "caches_last (cv @ ops) c'"
    using assms(5-7) on unfolding caches_last_def by fastforce
qed



end
