(* ===== verification/Node.thy ===== *)
theory Node
  imports Leader StoreSafety Transport
begin

text \<open>
  A whole node: \<open>RaftHandle::start\<close> (\<open>src/raft_node.rs\<close>), which opens the stores and starts the
  servers, and \<open>pg_replica_supervisor_main\<close> (\<open>src/lib.rs\<close>) from the settings to the end of its
  loop. The properties here span the components: what arrives on the network, what the
  supervisor does with it, and what a restart finds on the disk.
\<close>

section \<open>Starting Raft\<close>

text \<open>
  Whether the runtime is built, the port bound, the listener made non-blocking, the Raft
  configuration accepted and the Raft instance created.
\<close>

record raft_env =
  re_runtime :: bool
  re_bound :: bool
  re_nonblocking :: bool
  re_valid :: "raft_config \<Rightarrow> bool"
  re_raft :: bool

text \<open>The decoders of the two state files, the membership of a new node, and the disk.\<close>

record ('v, 'l, 'm) disk_env =
  de_log :: "bytes \<Rightarrow> ('v, 'l, 'm) log_state option"
  de_sm :: "bytes \<Rightarrow> ('l, 'm) sm_state option"
  de_members :: 'm
  de_readable :: bool
  de_disk :: fs

record ('v, 'l, 'm) raft_handle =
  h_log :: "('v, 'l, 'm) log_store"
  h_machine :: "('l, 'm) state_machine"
  h_config :: raft_config
  h_members :: "(u64, string) btree"
  h_voters :: "u64 set"
  h_gossip_to :: "string list"

datatype ('v, 'l, 'm) raft_started = RaftError | RaftPanic | RaftRunning "('v, 'l, 'm) raft_handle"

definition raft_start ::
    "raft_env \<Rightarrow> ('v, 'l, 'm) disk_env \<Rightarrow> u64 \<Rightarrow> (u64 \<times> string) list \<Rightarrow> string \<Rightarrow> u64 \<Rightarrow> ('v, 'l, 'm) raft_started"
where
  "raft_start re de node_id peers raft_dir compact_threshold =
     (if \<not> re_runtime re then RaftError
      else if \<not> re_bound re then RaftError
      else if \<not> re_nonblocking re then RaftError
      else
        let members = raft_members peers in
        (case open_store (de_log de) (de_sm de) (de_members de) (de_readable de) raft_dir node_id (de_disk de) of
           Panic \<Rightarrow> RaftPanic
         | Loaded (log_store, machine) \<Rightarrow>
             (let config = raft_config_of compact_threshold in
              if \<not> re_valid re config then RaftPanic
              else if \<not> re_raft re then RaftPanic
              else RaftRunning
                \<lparr>h_log = log_store, h_machine = machine, h_config = config, h_members = members,
                 h_voters = fst ` set peers, h_gossip_to = gossip_targets node_id peers\<rparr>)))"

definition current_decision :: "('v, 'l, 'm) raft_handle \<Rightarrow> decision option" where
  "current_decision h = shared_current (h_machine h)"

section \<open>The background worker\<close>

datatype worker_end = Idle "string list" | StartFailed | WorkerPanic | Stopped sup_cfg sup

definition spawn_first_watchdog :: "sup_cfg \<Rightarrow> 'w io \<Rightarrow> 'w io" where
  "spawn_first_watchdog cfg io =
     (if cf_watchdog_script cfg \<noteq> [] then emit (SpawnWatchdog (watchdog_of cfg)) io else io)"

definition supervisor_main ::
    "(string \<Rightarrow> string option) \<Rightarrow> guc_values \<Rightarrow> raft_env \<Rightarrow> ('v, 'l, 'm) disk_env \<Rightarrow> 'w os \<Rightarrow>
       instant \<Rightarrow> tick_in list \<Rightarrow> 'w \<Rightarrow> worker_end \<times> 'w io" where
  "supervisor_main env v re de os now ts w =
     (let io = \<lparr>io_world = w, io_events = []\<rparr> in
      case startup env v of
        Unconfigured \<Rightarrow> (Idle [], io)
      | Invalid errors \<Rightarrow> (Idle errors, io)
      | Start cfg \<Rightarrow>
          (let io1 = spawn_first_watchdog cfg io in
           case raft_start re de (cf_node_id cfg) (raft_peers cfg) (cf_raft_dir cfg) (cf_compact_threshold cfg) of
             RaftError \<Rightarrow> (StartFailed, io1)
           | RaftPanic \<Rightarrow> (WorkerPanic, io1)
           | RaftRunning h \<Rightarrow>
               (let (st, io2) = supervise os cfg (current_decision h) now ts (emit (RaftBootstrap (h_members h)) io1)
                in (Stopped cfg st, io2))))"

section \<open>The network\<close>

text \<open>
  The gossip an iteration receives was put on the channel by the handlers of accepted
  connections, whatever arrived on them.
\<close>

definition from_network ::
    "('aq, 'aa, 'vq, 'va, 'sq, 'sa, 'r) raft_api \<Rightarrow> u64 set \<Rightarrow> accept list \<Rightarrow> tick_in \<Rightarrow> bool" where
  "from_network api voters accepts i \<longleftrightarrow>
     list_all (\<lambda>(sender, payload, _). \<exists>stream \<in> set (spawn_server True accepts). \<exists>can_write slot0.
       (sender, payload) \<in> set (gossip_in (handle_conn api voters can_write stream
         \<lparr>slot = slot0, gossip_in = [], replies = []\<rparr>))) (i_msgs i)"

lemma voters_of_peers:
  "startup env v = Start cfg \<Longrightarrow> fst ` set (raft_peers cfg) = set (cf_voters cfg)"
  using startup_start [of env v cfg] by (auto simp: raft_peers_def image_image)

lemma from_network_voters:
  assumes "startup env v = Start cfg" "from_network api (fst ` set (raft_peers cfg)) accepts i"
  shows "voter_msgs cfg i"
  unfolding voter_msgs_def list_all_iff
proof (intro ballI, clarify)
  fix sender payload t u
  assume "(sender, payload, t, u) \<in> set (i_msgs i)"
  then obtain stream w sl where m: "(sender, payload) \<in> set (gossip_in (handle_conn api (set (cf_voters cfg)) w stream
      \<lparr>slot = sl, gossip_in = [], replies = []\<rparr>))"
    using assms(2) unfolding from_network_def list_all_iff voters_of_peers [OF assms(1)] by blast
  obtain new where "gossip_in (handle_conn api (set (cf_voters cfg)) w stream \<lparr>slot = sl, gossip_in = [], replies = []\<rparr>) = new"
    "fst ` set new \<subseteq> set (cf_voters cfg)"
    using handle_conn_gossip [of api "set (cf_voters cfg)" w stream "\<lparr>slot = sl, gossip_in = [], replies = []\<rparr>"] by auto
  then show "sender \<in> set (cf_voters cfg)" using m by force
qed

section \<open>The events of a whole run\<close>

lemma tick_new_events: "\<exists>es. io_events (snd (tick os cfg i c)) = io_events (snd c) @ es"
  using events_extend [of os cfg i "fst c" "snd c" "fst (tick os cfg i c)" "snd (tick os cfg i c)"] by simp

lemma run_event:
  "e \<in> set (io_events (snd (run_ticks os cfg ts c))) \<Longrightarrow> e \<notin> set (io_events (snd c)) \<Longrightarrow>
     \<exists>xs i ys es. ts = xs @ i # ys \<and> e \<in> set es \<and>
       io_events (snd (tick os cfg i (run_ticks os cfg xs c))) = io_events (snd (run_ticks os cfg xs c)) @ es"
proof (induction ts rule: rev_induct)
  case Nil
  then show ?case by (simp add: run_ticks_def)
next
  case (snoc i ts)
  obtain es where es: "io_events (snd (tick os cfg i (run_ticks os cfg ts c))) =
      io_events (snd (run_ticks os cfg ts c)) @ es"
    using tick_new_events by blast
  show ?case
  proof (cases "e \<in> set (io_events (snd (run_ticks os cfg ts c)))")
    case True
    with snoc obtain xs j ys es' where "ts = xs @ j # ys" "e \<in> set es'"
      "io_events (snd (tick os cfg j (run_ticks os cfg xs c))) = io_events (snd (run_ticks os cfg xs c)) @ es'"
      by blast
    then show ?thesis by (intro exI [of _ xs] exI [of _ j] exI [of _ "ys @ [i]"] exI [of _ es']) simp
  next
    case False
    then have "e \<in> set es" using snoc.prems(1) es by (simp add: run_ticks_snoc)
    then show ?thesis using es by (intro exI [of _ ts] exI [of _ i] exI [of _ "[]"] exI [of _ es]) simp
  qed
qed

text \<open>The state in which the loop of a worker starts.\<close>

definition loop_start :: "sup_cfg \<Rightarrow> ('v, 'l, 'm) raft_handle \<Rightarrow> instant \<Rightarrow> 'w \<Rightarrow> sup \<times> 'w io" where
  "loop_start cfg h now w =
     (init_sup (current_decision h) now,
      emit (RaftBootstrap (h_members h)) (spawn_first_watchdog cfg \<lparr>io_world = w, io_events = []\<rparr>))"

lemma loop_start_calm: "calm (io_events (snd (loop_start cfg h now w)))"
  by (simp add: loop_start_def spawn_first_watchdog_def)

lemma supervisor_main_stopped:
  assumes "supervisor_main env v re de os now ts w = (Stopped cfg st, io)"
  obtains h io2 where "startup env v = Start cfg"
    "raft_start re de (cf_node_id cfg) (raft_peers cfg) (cf_raft_dir cfg) (cf_compact_threshold cfg) = RaftRunning h"
    "run_ticks os cfg ts (loop_start cfg h now w) = (st, io2)"
    "io_events io = io_events io2 @ [RaftShutdown, StatusLine ''stopped'']"
  using assms that
  by (auto simp: supervisor_main_def supervise_def loop_start_def Let_def
      split: startup.splits raft_started.splits prod.splits)


text \<open>
  A node that hears one of its two peers: in its first iteration it adopts the decision for it and
  fences, in its second, a confirmation window later, it becomes writable.
\<close>

definition raft_env_ex :: raft_env where
  "raft_env_ex = \<lparr>re_runtime = True, re_bound = True, re_nonblocking = True, re_valid = \<lambda>_. True, re_raft = True\<rparr>"

definition disk_env_ex :: "(nat, nat, unit) disk_env" where
  "disk_env_ex = \<lparr>de_log = table_de log_table, de_sm = table_de sm_table, de_members = (),
     de_readable = True, de_disk = new_disk\<rparr>"

definition handle_ex :: "(nat, nat, unit) raft_handle" where
  "handle_ex = \<lparr>h_log = open_log (log_path ''/raft'' 1) default_log_state,
     h_machine = open_sm (sm_path ''/raft'' 1) (default_sm_state ()), h_config = raft_config_of 64,
     h_members = raft_members (raft_peers cfg_ex), h_voters = fst ` set (raft_peers cfg_ex),
     h_gossip_to = gossip_targets 1 (raft_peers cfg_ex)\<rparr>"

lemma raft_start_ex:
  "raft_start raft_env_ex disk_env_ex (cf_node_id cfg_ex) (raft_peers cfg_ex) (cf_raft_dir cfg_ex)
     (cf_compact_threshold cfg_ex) = RaftRunning handle_ex"
proof -
  have "cf_node_id cfg_ex = 1" "cf_raft_dir cfg_ex = ''/raft''" "cf_compact_threshold cfg_ex = 64"
    by (simp_all add: cfg_ex_def)
  moreover have "open_store (table_de log_table) (table_de sm_table) () True ''/raft'' 1 new_disk =
      Loaded (open_log (log_path ''/raft'' 1) default_log_state, open_sm (sm_path ''/raft'' 1) (default_sm_state ()))"
    by (simp add: open_store_def load_def fs_read_def new_disk_def)
  ultimately show ?thesis
    by (simp add: raft_start_def raft_env_ex_def disk_env_ex_def handle_ex_def Let_def)
qed

lemma loop_start_ex:
  "loop_start cfg_ex handle_ex now_ex 0 =
     (init_sup None now_ex, \<lparr>io_world = 0, io_events = [RaftBootstrap (h_members handle_ex)]\<rparr>)"
  by (simp add: loop_start_def spawn_first_watchdog_def emit_def current_decision_def shared_current_def
      handle_ex_def open_sm_def default_sm_state_def cfg_ex_def)

lemma node_prepare_ex:
  assumes "[adopt_tick_ex, window_tick_ex] = xs @ i # ys"
  shows "sp_decided (fst (prepare (os_ex {}) cfg_ex i (run_ticks (os_ex {}) cfg_ex xs (loop_start cfg_ex handle_ex now_ex 0)))) =
     Some \<lparr>dec_seq = 1, dec_primary = 1\<rparr>"
proof -
  consider "xs = []" "i = adopt_tick_ex" | "xs = [adopt_tick_ex]" "i = window_tick_ex"
    using assms by (auto simp: Cons_eq_append_conv)
  then show ?thesis
  proof cases
    case 1
    then show ?thesis
      by (simp add: run_ticks_def loop_start_ex adopt_prepare_ex)
        (simp add: adopted_sup_ex_def decided_sup_ex_def init_sup_def)
  next
    case 2
    obtain line post where "tick (os_ex {}) cfg_ex adopt_tick_ex (loop_start cfg_ex handle_ex now_ex 0) =
        (fenced_sup_ex line, \<lparr>io_world = 5, io_events = post\<rparr>)"
      using adopt_tick_run [of "[RaftBootstrap (h_members handle_ex)]"] unfolding loop_start_ex by blast
    with 2 show ?thesis
      by (simp add: run_ticks_def window_prepare_ex)
        (simp add: fenced_sup_ex_def adopted_sup_ex_def decided_sup_ex_def init_sup_def)
  qed
qed

lemma node_unfences_ex:
  "Sql (AlterReadOnly False) True \<in>
     set (io_events (snd (run_ticks (os_ex {}) cfg_ex [adopt_tick_ex, window_tick_ex] (loop_start cfg_ex handle_ex now_ex 0))))"
proof -
  obtain line post where "tick (os_ex {}) cfg_ex adopt_tick_ex (loop_start cfg_ex handle_ex now_ex 0) =
      (fenced_sup_ex line, \<lparr>io_world = 5, io_events = post\<rparr>)"
    using adopt_tick_run [of "[RaftBootstrap (h_members handle_ex)]"] unfolding loop_start_ex by blast
  then show ?thesis using window_unfences_ex [of line post] by (simp add: run_ticks_def)
qed


section \<open>Gossip from node to node\<close>

lemma role_keeps_maps: "same_maps (fst (prepare os cfg i c)) (fst (tick os cfg i c))"
proof (cases "i_in_recovery i")
  case True
  then show ?thesis unfolding tick_def Let_def
    by simp (rule same_maps_trans [OF role_same_maps(2) other_phases_same_maps(15)])
next
  case False
  then show ?thesis unfolding tick_def Let_def
    by simp (rule same_maps_trans [OF role_same_maps(1) other_phases_same_maps(15)])
qed

text \<open>What an iteration does to the maps of the peers.\<close>

lemma tick_maps:
  assumes "tick os cfg i (st, io) = (st', io')" "k \<noteq> cf_node_id cfg"
  defines "heard \<equiv> drain_gossip i (detect_stall (i_loop_now i) st)"
  shows "map_of (sp_peers_lsn st') k = map_of (sp_peers_lsn heard) k"
    "sp_last_heard st' = sp_last_heard heard" "sp_peers_reconfirm st' = sp_peers_reconfirm heard"
    "sp_peers_seq st' = sp_peers_seq heard"
proof -
  define g where "g = fst (gossip_phase cfg i (adopt_decision (i_current i) heard, beat cfg (detect_stall (i_loop_now i) st) io))"
  have "same_maps g (fst (prepare os cfg i (st, io)))"
    unfolding g_def heard_def prepare_def Let_def prod.case
    using same_maps_trans [OF same_maps_trans [OF other_phases_same_maps(3) other_phases_same_maps(4)] other_phases_same_maps(5)]
    by blast
  moreover have "same_maps (fst (prepare os cfg i (st, io))) st'"
    using role_keeps_maps [of os cfg i "(st, io)"] assms(1) by simp
  ultimately have g: "same_maps g st'" by (rule same_maps_trans)
  moreover have "same_maps heard (adopt_decision (i_current i) heard)" by (rule other_phases_same_maps(2))
  moreover have "map_of (sp_peers_lsn g) k = map_of (sp_peers_lsn (adopt_decision (i_current i) heard)) k"
    "sp_last_heard g = sp_last_heard (adopt_decision (i_current i) heard)"
    "sp_peers_reconfirm g = sp_peers_reconfirm (adopt_decision (i_current i) heard)"
    "sp_peers_seq g = sp_peers_seq (adopt_decision (i_current i) heard)"
    using assms(2) by (simp_all add: g_def gossip_phase_def Let_def)
  ultimately show "map_of (sp_peers_lsn st') k = map_of (sp_peers_lsn heard) k"
    "sp_last_heard st' = sp_last_heard heard" "sp_peers_reconfirm st' = sp_peers_reconfirm heard"
    "sp_peers_seq st' = sp_peers_seq heard"
    by (simp_all add: same_maps_def)
qed

lemma cluster_seq_ge: "map_of (sp_peers_seq st) k = Some s \<Longrightarrow> s \<le> cluster_seq st"
proof -
  have "x \<le> foldl max y ys \<longleftrightarrow> x \<le> y \<or> (\<exists>z \<in> set ys. x \<le> z)" for x y :: u64 and ys
    by (induction ys arbitrary: y) (auto simp: le_max_iff_disj)
  then show "map_of (sp_peers_seq st) k = Some s \<Longrightarrow> s \<le> cluster_seq st"
    by (force simp: cluster_seq_def dest: map_of_SomeD)
qed

text \<open>
  C17: Gossip reaches the supervisor of a peer: what one voter's supervisor broadcasts arrives,
  through the frame, the connection and the channel, in the maps of another's as the WAL
  position, recovery flag, confirmation request and (at least) decision number of the sender;
  and a node without a decision that hears in this way from one with a decision is not made
  writable in that iteration.
\<close>

theorem gossip_informs_the_peer:
  assumes "gossip_phase cfgA iA (stA, ioA) = (stA', emit (GossipOut sender payload) ioA)"
    and "startup env v = Start cfg" "sender \<in> set (cf_voters cfg)" "sender \<noteq> cf_node_id cfg"
    and "i_msgs i = map (\<lambda>(k, p). (k, p, heard, seen)) (gossip_in (handle_conn api (fst ` set (raft_peers cfg)) w
      (write_frame (gossip_frame sender payload)) \<lparr>slot = sl, gossip_in = [], replies = []\<rparr>))"
    and "tick os cfg i (st, io) = (st', io')" "io_events io' = io_events io @ es"
  shows "sender = cf_node_id cfgA \<and>
    map_of (sp_peers_lsn st') sender = Some (i_local_lsn iA, i_in_recovery iA, seen) \<and>
    map_of (sp_last_heard st') sender = Some heard \<and>
    map_of (sp_peers_reconfirm st') sender = Some (sp_reconfirm_pending stA) \<and>
    (\<exists>s. map_of (sp_peers_seq st') sender = Some s \<and> decided_seq stA \<le> s) \<and>
    (sp_decided st = None \<and> i_current i = None \<and> 0 < decided_seq stA \<longrightarrow>
      (\<forall>b. Sql (AlterReadOnly False) b \<notin> set es))"
proof -
  have "io_events (snd (gossip_phase cfgA iA (stA, ioA))) = io_events ioA @ [GossipOut sender payload]"
    using assms(1) by simp
  then have out: "sender = cf_node_id cfgA"
    "payload = encode_gossip (i_local_lsn iA) (i_in_recovery iA) (sp_reconfirm_pending stA) (decided_seq stA)"
    by (auto simp: gossip_phase_def decided_seq_def Let_def split: if_splits)
  have len: "length (gossip_frame sender payload) \<le> max_frame"
    by (simp add: gossip_frame_def max_frame_def out(2))
  have "handle_conn api (fst ` set (raft_peers cfg)) w (write_frame (gossip_frame sender payload) @ [])
      \<lparr>slot = sl, gossip_in = [], replies = []\<rparr> = \<lparr>slot = sl, gossip_in = [(sender, payload)], replies = []\<rparr>"
    using assms(3) by (simp add: handle_conn_frame [OF len] handle_gossip_frame handle_conn_end
        voters_of_peers [OF assms(2)] del: append_Nil2)
  then have msgs: "i_msgs i = [(sender, payload, heard, seen)]" using assms(5) by simp
  define st0 where "st0 = detect_stall (i_loop_now i) st"
  define known where "known = max (unwrap_or 0 (map_of (sp_peers_seq st0) sender)) (decided_seq stA)"
  have heard: "map_of (sp_peers_lsn (drain_gossip i st0)) sender = Some (i_local_lsn iA, i_in_recovery iA, seen)"
    "map_of (sp_last_heard (drain_gossip i st0)) sender = Some heard"
    "map_of (sp_peers_reconfirm (drain_gossip i st0)) sender = Some (sp_reconfirm_pending stA)"
    "map_of (sp_peers_seq (drain_gossip i st0)) sender = Some known"
    by (simp_all add: drain_gossip_def msgs receive_gossip_def out(2) decode_encode_gossip known_def Let_def)
  note maps = tick_maps [OF assms(6,4), folded st0_def]
  have quiet: "Sql (AlterReadOnly False) b \<notin> set es"
    if none: "sp_decided st = None" "i_current i = None" "0 < decided_seq stA" for b
  proof
    assume mem: "Sql (AlterReadOnly False) b \<in> set es"
    obtain st1 io1 where p: "prepare os cfg i (st, io) = (st1, io1)" by fastforce
    have dec: "sp_decided st1 = None" using prepare_fields(5) [OF p] none(1,2) by (auto simp: adopts_def)
    have seq: "sp_peers_seq st1 = sp_peers_seq st'"
      using role_keeps_maps [of os cfg i "(st, io)"] p assms(6) by (simp add: same_maps_def)
    have "known \<le> cluster_seq st1"
      using cluster_seq_ge [of st1 sender known] seq maps(4) heard(4) by simp
    moreover have "0 < known" using none(3) by (auto simp: known_def less_max_iff_disj)
    moreover have "cluster_seq st1 = 0"
      using tick_unfences(4) [OF assms(6,7) mem p] dec by (simp add: raw_auth_def)
    ultimately show False by simp
  qed
  show ?thesis using out(1) heard maps quiet by (auto simp: known_def)
qed

text \<open>Node 2, which has the decision 1, and node 1, which has none.\<close>

definition sender_sup_ex :: sup where
  "sender_sup_ex = sup_ex\<lparr>sp_ticks := 4\<rparr>"

definition sender_tick_ex :: tick_in where
  "sender_tick_ex = tick_ex\<lparr>i_local_lsn := 9\<rparr>"

theorem gossip_informs_the_peer_witness:
  "let i = tick_ex\<lparr>i_msgs := [(2, encode_gossip 9 False False 1, now_ex, now_ex)]\<rparr>;
       (st', io') = tick (os_ex {}) cfg_ex i (init_sup None now_ex, io_ex)
   in map_of (sp_peers_lsn st') 2 = Some (9, False, now_ex) \<and>
      (\<exists>s. map_of (sp_peers_seq st') 2 = Some s \<and> 1 \<le> s)"
proof -
  let ?api = "undefined :: (unit, unit, unit, unit, unit, unit, unit) raft_api"
  let ?p = "encode_gossip 9 False False 1"
  let ?i = "tick_ex\<lparr>i_msgs := [(2, ?p, now_ex, now_ex)]\<rparr>"
  let ?cfg = "cfg_ex\<lparr>cf_node_id := 2\<rparr>"
  let ?sv = "\<lparr>slot = None :: unit option, gossip_in = [], replies = []\<rparr>"
  have voters: "2 \<in> set (cf_voters cfg_ex)" "2 \<noteq> cf_node_id cfg_ex" by (simp_all add: cfg_ex_def)
  have gossip: "gossip_phase ?cfg sender_tick_ex (sender_sup_ex, io_ex) =
      (fst (gossip_phase ?cfg sender_tick_ex (sender_sup_ex, io_ex)), emit (GossipOut 2 ?p) io_ex)"
    by (simp add: gossip_phase_def gossip_every_def decided_seq_def sender_sup_ex_def sender_tick_ex_def
        tick_ex_defs Let_def)
  have len: "length (gossip_frame 2 ?p) \<le> max_frame" by (simp add: gossip_frame_def max_frame_def)
  have "handle_conn ?api (fst ` set (raft_peers cfg_ex)) w (write_frame (gossip_frame 2 ?p) @ []) ?sv =
      ?sv\<lparr>gossip_in := [(2, ?p)]\<rparr>" for w
    using voters(1) by (simp add: handle_conn_frame [OF len] handle_gossip_frame handle_conn_end
        voters_of_peers [OF startup_ex] del: append_Nil2)
  then have msgs: "i_msgs ?i = map (\<lambda>(k, p). (k, p, now_ex, now_ex)) (gossip_in (handle_conn ?api
      (fst ` set (raft_peers cfg_ex)) (\<lambda>_. True) (write_frame (gossip_frame 2 ?p)) ?sv))"
    by simp
  have "decided_seq sender_sup_ex = 1"
    by (simp add: decided_seq_def sender_sup_ex_def sup_ex_def init_sup_def)
  then show ?thesis
    using gossip_informs_the_peer [OF gossip startup_ex voters msgs run_ex(1) run_ex(2), of "os_ex {}" "init_sup None now_ex"]
    by (simp add: sender_tick_ex_def tick_ex_def case_prod_unfold Let_def)
qed

section \<open>Restart\<close>

text \<open>
  C10: A restart does not forget a decision: once the state machine has acknowledged entries with
  a decision, and as long as the later calls only bring decisions of the same or a higher number
  (which the code does not ensure: it publishes what it applies or installs), then after a power
  loss at any point of these calls a worker that starts Raft on what the disk holds starts its
  supervisor with a decision of at least that number; so it is not in the state of a new cluster,
  in which a node may be writable without one.
\<close>

theorem restart_keeps_the_decision:
  assumes "codec_ok ser (de_sm de)" "target_ok (m_path m)" "all_synced s (m_path m)" "m_path m = sm_path rdir node_id"
    and "apply_sm ser f es m s = (Ok us, m1, tr)" "decisions_of es \<noteq> []"
    and "list_all (\<lambda>(_, x). decides_from (dec_seq (last (decisions_of es))) (de_sm de) x) xs"
    and "run_store (sm_step disp ser (de_sm de)) xs m1 (last tr) = (ms, ts)" "t \<in> set ts" "crashes t t'"
    and "raft_start re (de\<lparr>de_readable := True, de_disk := t'\<rparr>) node_id peers rdir threshold = RaftRunning h"
  shows "current_decision h \<noteq> None \<and> dec_seq (last (decisions_of es)) \<le> decided_seq (init_sup (current_decision h) now)"
proof -
  let ?got = "load (de_sm de) (default_sm_state (de_members de)) (fs_read True t' (sm_path rdir node_id))"
  have "?got \<in> recovered (de_sm de) (default_sm_state (de_members de)) (m_path m) t"
    unfolding assms(4) using load_after_crash [OF assms(10)] .
  from published_decision_never_regresses [OF assms(1-3,5-9) this] obtain sm' d
    where got: "?got = Loaded sm'" "s_decision sm' = Some d" "dec_seq (last (decisions_of es)) \<le> dec_seq d"
    by blast
  have "m_shared (h_machine h) = s_decision sm'"
    using assms(11) got(1)
    by (auto simp: raft_start_def open_store_def open_sm_def Let_def split: if_splits loaded.splits)
  then show ?thesis
    using got by (simp add: current_decision_def shared_current_def decided_seq_def init_sup_def)
qed

text \<open>A state machine on an empty disk that applies one decision.\<close>

definition machine_ex :: "(nat, unit) state_machine" where
  "machine_ex = open_sm (sm_path ''d'' 1) (default_sm_state ())"

definition disk_after_ex :: fs where
  "disk_after_ex = last (snd (snd (apply_sm (table_ser sm_table) (\<lambda>_. None) [entry_ex] machine_ex new_disk)))"

lemma machine_paths:
  "sm_path ''d'' 1 = ''d/raft_sm_1.json''" "with_extension_tmp ''d/raft_sm_1.json'' = ''d/raft_sm_1.tmp''"
  "parent_path ''d/raft_sm_1.json'' = ''d''" "parent_path ''d/raft_sm_1.tmp'' = ''d''"
  "log_path ''d'' 1 = ''d/raft_log_1.json''"
  by code_simp+

lemma machine_apply:
  "fst (apply_sm (table_ser sm_table) (\<lambda>_. None) [entry_ex] machine_ex new_disk) = Ok [()]"
  "dir disk_after_ex = [''d/raft_sm_1.json'' \<mapsto> \<lparr>content = [1], synced = True\<rparr>]" "olds disk_after_ex = (\<lambda>_. [])"
  unfolding disk_after_ex_def
  by (simp_all add: apply_sm_def sm_persist_def atomic_write_def atomic_write_ops_def Let_def machine_ex_def
      apply_entries_def apply_entry_def shared_set_def example_defs case_prod_unfold machine_paths
      new_disk_def set_entry_def map_file_def fun_eq_iff)

theorem restart_keeps_the_decision_witness:
  "\<exists>h. raft_start raft_env_ex (disk_env_ex\<lparr>de_readable := True, de_disk := disk_after_ex\<rparr>) 1 [] ''d'' 64 = RaftRunning h \<and>
     current_decision h \<noteq> None \<and> 1 \<le> decided_seq (init_sup (current_decision h) now_ex)"
proof -
  let ?c = "apply_sm (table_ser sm_table) (\<lambda>_. None) [entry_ex] machine_ex new_disk"
  have c: "?c = (Ok [()], fst (snd ?c), snd (snd ?c))" using machine_apply(1) by (metis prod.collapse)
  have sm: "de_sm disk_env_ex = table_de sm_table" by (simp add: disk_env_ex_def)
  have d: "decisions_of [entry_ex] = [\<lparr>dec_seq = 1, dec_primary = 2\<rparr>]"
    by (simp add: decisions_of_def map_filter_def entry_ex_def)
  have path: "m_path machine_ex = sm_path ''d'' 1" by (simp add: machine_ex_def open_sm_def)
  have target: "target_ok (m_path machine_ex)" unfolding path by (rule store_paths) simp
  have synced: "all_synced new_disk (m_path machine_ex)"
    by (simp add: all_synced_def entries_def new_disk_def)
  have crash: "crashes disk_after_ex disk_after_ex"
    by (simp add: crashes_def crash_may_def entries_def machine_apply)
  have started: "raft_start raft_env_ex (disk_env_ex\<lparr>de_readable := True, de_disk := disk_after_ex\<rparr>) 1 [] ''d'' 64 =
      RaftRunning \<lparr>h_log = open_log (log_path ''d'' 1) default_log_state, h_machine = open_sm (sm_path ''d'' 1) sm_decided,
        h_config = raft_config_of 64, h_members = raft_members [], h_voters = {}, h_gossip_to = gossip_targets 1 []\<rparr>"
    by (simp add: raft_start_def raft_env_ex_def disk_env_ex_def open_store_def load_def fs_read_def machine_apply
        machine_paths table_de_def sm_table_def Let_def)
  note restart = restart_keeps_the_decision [of "table_ser sm_table" disk_env_ex machine_ex new_disk "''d''" 1
      "\<lambda>_. None" "[entry_ex]", unfolded sm, OF example_codecs(2) target synced path c]
  show ?thesis
    using started restart [of "[]" "\<lambda>_. []" "[fst (snd ?c)]" "[disk_after_ex]" disk_after_ex disk_after_ex] crash d
    by (simp add: disk_after_ex_def)
qed

end
