(* ===== verification/Server.thy ===== *)
theory Server
  imports Leader
begin

text \<open>
  The PostgreSQL server under the supervisor. The server is a parameter, with what its
  documentation says of the statements the supervisor runs as the hypothesis \<open>documented\<close>; its two
  settings of interest are observed in the stored configuration and in force (once the reloads
  requested so far have been carried out). The theorems relate them to what the supervisor
  decided and to what it remembers.
\<close>

section \<open>The settings of the server\<close>

record server_settings =
  stored_read_only :: bool
  stored_sync :: string
  live_read_only :: bool
  live_sync :: string

text \<open>\<open>sv_exec\<close> is what an event does to the server, \<open>settings\<close> what can be observed of it.\<close>

record 's server =
  sv_exec :: "event \<Rightarrow> 's \<Rightarrow> 's"
  settings :: "'s \<Rightarrow> server_settings"

fun concerns_settings :: "sql \<Rightarrow> bool" where
  "concerns_settings (AlterReadOnly x) = True"
| "concerns_settings (AlterSync names) = True"
| "concerns_settings ReloadConf = True"
| "concerns_settings _ = False"

text \<open>
  \<open>ALTER SYSTEM\<close> changes the stored configuration, a reload puts it in force, other statements
  leave both alone. A statement that was reported as failed (psql ran into its deadline) may have
  taken effect or not. Nothing else the supervisor does touches the settings at once; the rejoin
  script, which stops the server and rewrites its configuration, is left open.
\<close>

definition documented :: "'s server \<Rightarrow> bool" where
  "documented sv \<longleftrightarrow> (\<forall>s.
     (\<forall>x. settings sv (sv_exec sv (Sql (AlterReadOnly x) True) s) = (settings sv s)\<lparr>stored_read_only := x\<rparr>) \<and>
     (\<forall>names. settings sv (sv_exec sv (Sql (AlterSync names) True) s) = (settings sv s)\<lparr>stored_sync := names\<rparr>) \<and>
     settings sv (sv_exec sv (Sql ReloadConf True) s) =
       (settings sv s)\<lparr>live_read_only := stored_read_only (settings sv s), live_sync := stored_sync (settings sv s)\<rparr> \<and>
     (\<forall>q b. \<not> concerns_settings q \<longrightarrow> settings sv (sv_exec sv (Sql q b) s) = settings sv s) \<and>
     (\<forall>q. settings sv (sv_exec sv (Sql q False) s) \<in> {settings sv s, settings sv (sv_exec sv (Sql q True) s)}) \<and>
     (\<forall>e. (\<forall>q b. e \<noteq> Sql q b) \<longrightarrow> (\<forall>cmd. e \<noteq> SpawnRejoin cmd) \<longrightarrow> settings sv (sv_exec sv e s) = settings sv s))"

definition after :: "'s server \<Rightarrow> event list \<Rightarrow> 's \<Rightarrow> server_settings" where
  "after sv es s = settings sv (fold (sv_exec sv) es s)"

section \<open>Statements that succeed\<close>

text \<open>The settings after events none of which failed, which a documented server has to have.\<close>

fun serve_event :: "server_settings \<Rightarrow> event \<Rightarrow> server_settings" where
  "serve_event sv (Sql q b) =
     (if b then (case q of
          AlterReadOnly x \<Rightarrow> sv\<lparr>stored_read_only := x\<rparr>
        | AlterSync names \<Rightarrow> sv\<lparr>stored_sync := names\<rparr>
        | ReloadConf \<Rightarrow> sv\<lparr>live_read_only := stored_read_only sv, live_sync := stored_sync sv\<rparr>
        | _ \<Rightarrow> sv)
      else sv)"
| "serve_event sv _ = sv"

definition after_events :: "server_settings \<Rightarrow> event list \<Rightarrow> server_settings" where
  "after_events sv es = foldl serve_event sv es"

definition succeeded :: "event list \<Rightarrow> bool" where
  "succeeded es = list_all (\<lambda>e. case e of Sql q b \<Rightarrow> b | _ \<Rightarrow> True) es"

lemma after_events_simps [simp]:
  "after_events sv [] = sv" "after_events sv (e # es) = after_events (serve_event sv e) es"
  "after_events sv (xs @ ys) = after_events (after_events sv xs) ys"
  by (simp_all add: after_events_def)

lemma succeeded_simps [simp]:
  "succeeded []" "succeeded (xs @ ys) \<longleftrightarrow> succeeded xs \<and> succeeded ys"
  "succeeded (e # es) \<longleftrightarrow> (case e of Sql q b \<Rightarrow> b | _ \<Rightarrow> True) \<and> succeeded es"
  by (simp_all add: succeeded_def)

lemma after_calm: "calm es \<Longrightarrow> after_events sv es = sv"
proof -
  have "quiet e \<Longrightarrow> serve_event sv e = sv" for e sv
    by (cases e) (auto split: sql.splits)
  then show "calm es \<Longrightarrow> after_events sv es = sv" by (induction es) simp_all
qed

definition rejoin_free :: "event list \<Rightarrow> bool" where
  "rejoin_free es \<longleftrightarrow> (\<forall>cmd. SpawnRejoin cmd \<notin> set es)"

lemma rejoin_free_simps [simp]:
  "rejoin_free []" "rejoin_free (xs @ ys) \<longleftrightarrow> rejoin_free xs \<and> rejoin_free ys"
  "rejoin_free (e # es) \<longleftrightarrow> (\<forall>cmd. e \<noteq> SpawnRejoin cmd) \<and> rejoin_free es"
  by (auto simp: rejoin_free_def)

lemma after_append: "after sv (xs @ ys) s = after sv ys (fold (sv_exec sv) xs s)"
  by (simp add: after_def)

lemma settings_quiet:
  assumes "documented sv" "\<forall>cmd. e \<noteq> SpawnRejoin cmd" "\<forall>q b. e = Sql q b \<longrightarrow> \<not> concerns_settings q"
  shows "settings sv (sv_exec sv e s) = settings sv s"
proof (cases "\<exists>q b. e = Sql q b")
  case True
  then obtain q b where "e = Sql q b" "\<not> concerns_settings q" using assms(3) by blast
  then show ?thesis using assms(1) unfolding documented_def by blast
next
  case False
  then have "\<forall>q b. e \<noteq> Sql q b" by blast
  then show ?thesis using assms(1,2) unfolding documented_def by blast
qed

lemma settings_good:
  assumes "documented sv" "case e of Sql q b \<Rightarrow> b | _ \<Rightarrow> True" "\<forall>cmd. e \<noteq> SpawnRejoin cmd"
  shows "settings sv (sv_exec sv e s) = serve_event (settings sv s) e"
proof (cases "\<exists>q. e = Sql q True \<and> concerns_settings q")
  case True
  then obtain q where "e = Sql q True" "concerns_settings q" by blast
  then show ?thesis using assms(1) unfolding documented_def by (cases q) simp_all
next
  case False
  then have "\<forall>q b. e = Sql q b \<longrightarrow> \<not> concerns_settings q" using assms(2) by auto
  moreover from this have "serve_event (settings sv s) e = settings sv s"
    by (cases e) (auto split: sql.split)
  ultimately show ?thesis using settings_quiet [OF assms(1,3)] by simp
qed

lemma after_succeeded:
  "documented sv \<Longrightarrow> succeeded es \<Longrightarrow> rejoin_free es \<Longrightarrow> after sv es s = after_events (settings sv s) es"
  by (induction es arbitrary: s) (simp_all add: after_def settings_good)

section \<open>What the supervisor knows\<close>

definition knows_read_only :: "bool option \<Rightarrow> server_settings \<Rightarrow> bool" where
  "knows_read_only k sv \<longleftrightarrow> (case k of None \<Rightarrow> True | Some x \<Rightarrow> stored_read_only sv = x \<and> live_read_only sv = x)"

definition knows_sync :: "string option \<Rightarrow> server_settings \<Rightarrow> bool" where
  "knows_sync k sv \<longleftrightarrow> (case k of None \<Rightarrow> True | Some x \<Rightarrow> stored_sync sv = x \<and> live_sync sv = x)"

definition knows :: "sup \<Rightarrow> server_settings \<Rightarrow> bool" where
  "knows st sv \<longleftrightarrow> knows_read_only (sp_applied_read_only st) sv \<and> knows_sync (sp_applied_sync st) sv"

text \<open>Setting one of the two and reloading, with success.\<close>

lemma sets_list_succeeded:
  "sets_list cond q es good \<Longrightarrow> succeeded es \<Longrightarrow>
     good = cond \<and> es = (if cond then [Sql q True, Sql ReloadConf True] else [])"
  by (auto simp: sets_list_def setting_events_def split: if_splits)

lemma after_read_only:
  assumes "sets_list cond (AlterReadOnly x) es good" "succeeded es" "knows_sync k sv"
  shows "good = cond" "knows_sync k (after_events sv es)"
    "cond \<Longrightarrow> knows_read_only (Some x) (after_events sv es)" "\<not> cond \<Longrightarrow> after_events sv es = sv"
  using sets_list_succeeded [OF assms(1,2)] assms(3)
  by (simp_all add: knows_sync_def knows_read_only_def split: option.splits)

lemma after_sync:
  assumes "sets_list cond (AlterSync x) es good" "succeeded es" "knows_read_only k sv"
  shows "good = cond" "knows_read_only k (after_events sv es)"
    "cond \<Longrightarrow> knows_sync (Some x) (after_events sv es)" "\<not> cond \<Longrightarrow> after_events sv es = sv"
  using sets_list_succeeded [OF assms(1,2)] assms(3)
  by (simp_all add: knows_sync_def knows_read_only_def split: option.splits)

lemma after_other:
  assumes "sets_list cond (AlterConninfo x) es good" "succeeded es" "knows_sync k sv"
  shows "knows_sync k (after_events sv es)"
  using sets_list_succeeded [OF assms(1,2)] assms(3) by (simp add: knows_sync_def split: option.splits)

text \<open>An iteration of a primary in which nothing failed.\<close>

lemma primary_server:
  assumes "tick os cfg i (st, io) = (st', io')" "io_events io' = io_events io @ es" "succeeded es"
    and "\<not> i_in_recovery i" "prepare os cfg i (st, io) = (st1, io1)" "knows st sv"
  defines "sv' \<equiv> after_events sv es" and "a \<equiv> authority cfg i st1"
  shows "knows st' sv' \<and> sp_applied_read_only st' = Some (\<not> a) \<and>
    (case want_sync cfg a st1 of None \<Rightarrow> sp_applied_sync st' = sp_applied_sync st
     | Some names \<Rightarrow> sp_applied_sync st' = Some names)"
proof -
  obtain pre f s u post where es: "es = pre @ f @ s @ u @ post" and calm: "calm pre" "calm post"
    and r: "role_events cfg a st1 st' f s u"
    using tick_primary [OF assms(1,4,5,2)] unfolding a_def by blast
  obtain gf gs gu where
    f: "sets_list (\<not> a \<and> sp_applied_read_only st1 \<noteq> Some True) (AlterReadOnly True) f gf"
    and s: "sets_list (want_sync cfg a st1 \<noteq> None \<and> sp_applied_sync st1 \<noteq> want_sync cfg a st1)
      (AlterSync (the (want_sync cfg a st1))) s gs"
    and u: "sets_list (a \<and> sp_applied_read_only st1 \<noteq> Some False) (AlterReadOnly False) u gu"
    and st': "sp_applied_read_only st' =
         (if gu then Some False else if gf then Some True else sp_applied_read_only st1)"
      "sp_applied_sync st' = (if gs then want_sync cfg a st1 else sp_applied_sync st1)"
    using r unfolding role_events_def by blast
  have ok: "succeeded f" "succeeded s" "succeeded u" using assms(3) unfolding es by simp_all
  have sync1: "sp_applied_sync st1 = sp_applied_sync st" by (rule prepare_fields(2) [OF assms(5)])
  have k0: "knows_read_only (sp_applied_read_only st1) sv" "knows_sync (sp_applied_sync st1) sv"
    using assms(6) prepare_fields(1) [OF assms(5)]
    by (simp_all add: knows_def sync1 knows_read_only_def)
  let ?f = "after_events sv f" and ?s = "after_events (after_events sv f) s"
    and ?u = "after_events (after_events (after_events sv f) s) u"
  let ?ro = "if gf then Some True else sp_applied_read_only st1"
  have sv': "sv' = ?u" unfolding sv'_def es using after_calm calm by simp
  note F = after_read_only [OF f ok(1) k0(2)]
  have ro_f: "knows_read_only ?ro ?f" using F k0(1) by (cases gf) auto
  note S = after_sync [OF s ok(2) ro_f]
  have sync_s: "knows_sync (sp_applied_sync st') ?s" using S F(2) by (cases gs) (auto simp: st'(2))
  note U = after_read_only [OF u ok(3) sync_s]
  have ro_u: "knows_read_only (sp_applied_read_only st') ?u" using U S(2) by (cases gu) (auto simp: st'(1))
  have "sp_applied_read_only st' = Some (\<not> a)" using U(1) F(1) by (auto simp: st'(1))
  moreover have "case want_sync cfg a st1 of None \<Rightarrow> sp_applied_sync st' = sp_applied_sync st
     | Some names \<Rightarrow> sp_applied_sync st' = Some names"
    using S(1) by (auto simp: st'(2) sync1 split: option.split)
  ultimately show ?thesis using ro_u U(2) by (simp add: knows_def sv')
qed

text \<open>An iteration of a standby in which nothing failed.\<close>

lemma standby_server:
  assumes "tick os cfg i (st, io) = (st', io')" "io_events io' = io_events io @ es" "succeeded es"
    and "i_in_recovery i" "knows st sv"
  shows "knows st' (after_events sv es)"
proof -
  obtain st1 io1 where p: "prepare os cfg i (st, io) = (st1, io1)" by fastforce
  obtain pre c q post gc where es: "es = pre @ c @ q @ post" and calm: "calm pre" "calm post"
    and c: "sets_list (sp_applied_sync st1 \<noteq> Some []) (AlterSync []) c gc"
    and q: "if decided_primary st1 = cf_node_id cfg
       then (if promote_due st1 then \<exists>b1 b2 b. q = promotion b1 b2 b \<and> sp_promoted st' = b else q = [])
       else \<exists>gp. sets_list (repoint_due cfg st1) (AlterConninfo (conninfo_of cfg)) q gp \<and>
         (gp \<longrightarrow> sp_applied_primary st' = decided_primary st1)"
    and ro: "sp_applied_read_only st' = None"
    and sync: "sp_applied_sync st' = (if gc then Some [] else sp_applied_sync st1)"
    using tick_standby [OF assms(1,4) p assms(2)] by blast
  have ok: "succeeded c" "succeeded q" using assms(3) unfolding es by simp_all
  have none: "knows_read_only None sv" by (simp add: knows_read_only_def)
  have "knows_sync (sp_applied_sync st1) sv"
    using assms(5) prepare_fields(2) [OF p] by (simp add: knows_def)
  then have sync_c: "knows_sync (sp_applied_sync st') (after_events sv c)"
    using after_sync [OF c ok(1) none] by (cases gc) (auto simp: sync)
  have "knows_sync (sp_applied_sync st') (after_events (after_events sv c) q)"
    using q sync_c after_other [OF _ ok(2) sync_c]
    by (auto simp: promotion_def knows_sync_def split: if_splits option.splits)
  then show ?thesis using ro after_calm calm by (simp add: es knows_def knows_read_only_def)
qed

lemma ticks_events: "\<exists>es. io_events (snd (run_ticks os cfg ts c)) = io_events (snd c) @ es"
proof (induction ts rule: rev_induct)
  case Nil
  then show ?case by (simp add: run_ticks_def)
next
  case (snoc i ts)
  then show ?case
    using events_extend [of os cfg i "fst (run_ticks os cfg ts c)" "snd (run_ticks os cfg ts c)"
      "fst (tick os cfg i (run_ticks os cfg ts c))" "snd (tick os cfg i (run_ticks os cfg ts c))"]
    by (auto simp: run_ticks_snoc)
qed

text \<open>A run whose statements succeed, one iteration at a time.\<close>

lemma run_induct [consumes 3, case_names init tick]:
  assumes "run_ticks os cfg ts (c, io) = (st, io')" "io_events io' = io_events io @ es" "succeeded es"
    and "P c []"
    and "\<And>i st0 io0 st io' e1 e2. tick os cfg i (st0, io0) = (st, io') \<Longrightarrow> io_events io' = io_events io0 @ e2 \<Longrightarrow>
      succeeded e2 \<Longrightarrow> succeeded e1 \<Longrightarrow> P st0 e1 \<Longrightarrow> P st (e1 @ e2)"
  shows "P st es"
  using assms(1-3)
proof (induction ts arbitrary: st io' es rule: rev_induct)
  case Nil
  then show ?case using assms(4) by (simp add: run_ticks_def)
next
  case (snoc i ts)
  obtain st0 io0 where r: "run_ticks os cfg ts (c, io) = (st0, io0)" by fastforce
  have t: "tick os cfg i (st0, io0) = (st, io')" using snoc.prems(1) r by (simp add: run_ticks_snoc)
  obtain e2 where e2: "io_events io' = io_events io0 @ e2" using events_extend [OF t] by blast
  obtain e1 where e1: "io_events io0 = io_events io @ e1" using ticks_events [of os cfg ts "(c, io)"] r by auto
  have es: "es = e1 @ e2" using snoc.prems(2) e1 e2 by simp
  then have ok: "succeeded e1" "succeeded e2" using snoc.prems(3) by simp_all
  show ?case unfolding es by (rule assms(5) [OF t e2 ok(2,1) snoc.IH [OF r e1 ok(1)]])
qed

lemma knows_init: "knows (init_sup cur now) sv"
  by (simp add: knows_def knows_read_only_def knows_sync_def init_sup_def)

text \<open>The server after a run, and what the supervisor knows of it.\<close>

lemma knows_run:
  assumes "run_ticks os cfg ts (init_sup cur now, io) = (st, io')" "io_events io' = io_events io @ es" "succeeded es"
  shows "knows st (after_events sv es)"
  using assms
proof (induction rule: run_induct)
  case init
  then show ?case by (simp add: knows_init)
next
  case (tick i st0 io0 st io' e1 e2)
  obtain st1 io1 where p: "prepare os cfg i (st0, io0) = (st1, io1)" by fastforce
  show ?case
    using primary_server [OF tick(1-3) _ p tick(5)] standby_server [OF tick(1-3) _ tick(5)]
    by (cases "i_in_recovery i") auto
qed

section \<open>The watchdog beside the supervisor\<close>

text \<open>
  The deadman watchdog, once spawned, runs two statements of its own, both towards read-only, at
  any time between those of the supervisor.
\<close>

fun watchdog_statement :: "event \<Rightarrow> bool" where
  "watchdog_statement (Sql (AlterReadOnly x) b) = x"
| "watchdog_statement (Sql ReloadConf b) = True"
| "watchdog_statement _ = False"

text \<open>The last read-write statement is followed by a read-only statement and a reload.\<close>

definition fenced_by :: "event list \<Rightarrow> bool" where
  "fenced_by es \<longleftrightarrow> (\<exists>xs ys zs. es = xs @ Sql (AlterReadOnly True) True # ys @ Sql ReloadConf True # zs \<and>
     (\<forall>b. Sql (AlterReadOnly False) b \<notin> set (ys @ zs)))"

lemma fenced_by_append:
  assumes "fenced_by xs" "\<forall>b. Sql (AlterReadOnly False) b \<notin> set es"
  shows "fenced_by (xs @ es)"
proof -
  obtain as ys zs where "xs = as @ Sql (AlterReadOnly True) True # ys @ Sql ReloadConf True # zs"
    "\<forall>b. Sql (AlterReadOnly False) b \<notin> set (ys @ zs)"
    using assms(1) unfolding fenced_by_def by blast
  then show ?thesis using assms(2) unfolding fenced_by_def
    by (intro exI [of _ as] exI [of _ ys] exI [of _ "zs @ es"]) auto
qed

lemma fenced_byI: "\<forall>b. Sql (AlterReadOnly False) b \<notin> set zs \<Longrightarrow>
    fenced_by (xs @ Sql (AlterReadOnly True) True # Sql ReloadConf True # zs)"
  unfolding fenced_by_def by (intro exI [of _ xs] exI [of _ "[]"] exI [of _ zs]) simp

text \<open>An iteration without authority ends fenced, if the events before it did when the node was known to be.\<close>

lemma tick_fences:
  assumes "tick os cfg i (st, io) = (st', io')" "io_events io' = io_events io @ es" "succeeded es"
    and "\<not> i_in_recovery i" "prepare os cfg i (st, io) = (st1, io1)" "\<not> authority cfg i st1"
    and "sp_applied_read_only st = Some True \<longrightarrow> fenced_by xs"
  shows "fenced_by (xs @ es)"
proof -
  obtain pre f s u post where es: "es = pre @ f @ s @ u @ post" and calm: "calm pre" "calm post"
    and r: "role_events cfg False st1 st' f s u"
    using tick_primary [OF assms(1,4,5,2)] assms(6) by auto
  have no: "\<forall>b. Sql (AlterReadOnly False) b \<notin> set es" "\<forall>b. Sql (AlterReadOnly False) b \<notin> set (s @ u @ post)"
    using role_sql(1) [OF r] around_role [OF calm, of "Sql (AlterReadOnly False) b" for b] unfolding es by fastforce+
  obtain gf where f: "sets_list (sp_applied_read_only st1 \<noteq> Some True) (AlterReadOnly True) f gf"
    using r unfolding role_events_def by auto
  show ?thesis
  proof (cases "sp_applied_read_only st1 = Some True")
    case True
    then have "sp_applied_read_only st = Some True" using prepare_fields(1) [OF assms(5)] by (auto split: if_splits)
    then show ?thesis using assms(7) fenced_by_append [OF _ no(1)] by blast
  next
    case False
    have "succeeded f" using assms(3) unfolding es by simp
    then have "f = [Sql (AlterReadOnly True) True, Sql ReloadConf True]"
      using sets_list_succeeded [OF f] False by simp
    then show ?thesis using fenced_byI [OF no(2), of "xs @ pre"] unfolding es by simp
  qed
qed

lemma known_fenced:
  assumes "tick os cfg i (st, io) = (st', io')" "io_events io' = io_events io @ es" "succeeded es"
    and "sp_applied_read_only st = Some True \<longrightarrow> fenced_by xs" "sp_applied_read_only st' = Some True"
  shows "fenced_by (xs @ es)"
proof -
  obtain st1 io1 where p: "prepare os cfg i (st, io) = (st1, io1)" by fastforce
  have rec: "\<not> i_in_recovery i"
  proof
    assume "i_in_recovery i"
    from tick_standby [OF assms(1) this p assms(2)] assms(5) show False by auto
  qed
  obtain pre f s u post where es: "es = pre @ f @ s @ u @ post"
    and r: "role_events cfg (authority cfg i st1) st1 st' f s u"
    using tick_primary [OF assms(1) rec p assms(2)] by blast
  have "succeeded u" using assms(3) unfolding es by simp
  then have "\<not> authority cfg i st1"
    using r assms(5) unfolding role_events_def by (auto simp: sets_list_def setting_events_def split: if_splits)
  from tick_fences [OF assms(1-3) rec p this assms(4)] show ?thesis .
qed

lemma known_fenced_run:
  assumes "run_ticks os cfg ts (init_sup cur now, io) = (st, io')" "io_events io' = io_events io @ es" "succeeded es"
  shows "sp_applied_read_only st = Some True \<longrightarrow> fenced_by es"
  using assms
proof (induction rule: run_induct)
  case init
  then show ?case by (simp add: init_sup_def)
next
  case (tick i st0 io0 st io' e1 e2)
  then show ?case using known_fenced by blast
qed

text \<open>The events of the supervisor keep their order among those of the watchdog.\<close>

lemma shuffles_split:
  "h \<in> shuffles (xs @ x # ys) ws \<Longrightarrow> \<exists>as bs vs. h = as @ x # bs \<and> bs \<in> shuffles ys vs \<and> set vs \<subseteq> set ws"
proof (induction h arbitrary: xs ws)
  case (Cons z h)
  from Cons.prems consider (own) "hd (xs @ x # ys) = z" "h \<in> shuffles (tl (xs @ x # ys)) ws"
    | (other) "ws \<noteq> []" "h \<in> shuffles (xs @ x # ys) (tl ws)"
    by (auto simp: Cons_in_shuffles_iff)
  then show ?case
  proof cases
    case own
    show ?thesis
    proof (cases xs)
      case Nil
      then show ?thesis using own by (intro exI [of _ "[]"] exI [of _ h] exI [of _ ws]) simp
    next
      case (Cons y xs')
      then have "h \<in> shuffles (xs' @ x # ys) ws" using own(2) by simp
      from Cons.IH [OF this] show ?thesis by (metis append_Cons)
    qed
  next
    case other
    from Cons.IH [OF other(2)] show ?thesis
      by (metis append_Cons list.set_sel(2) other(1) subset_iff)
  qed
qed simp

lemma stays_stored:
  assumes "documented sv" "rejoin_free h" "\<forall>b. Sql (AlterReadOnly (\<not> x)) b \<notin> set h"
    and "stored_read_only (settings sv s) = x"
  shows "stored_read_only (after sv h s) = x"
    "live_read_only (settings sv s) = x \<or> Sql ReloadConf True \<in> set h \<Longrightarrow> live_read_only (after sv h s) = x"
proof -
  have "stored_read_only (after sv h s) = x \<and>
    (live_read_only (settings sv s) = x \<or> Sql ReloadConf True \<in> set h \<longrightarrow> live_read_only (after sv h s) = x)"
    using assms(2-4)
  proof (induction h arbitrary: s)
    case Nil
    then show ?case by (simp add: after_def)
  next
    case (Cons e h)
    have step: "stored_read_only (settings sv (sv_exec sv e s)) = x \<and>
        (live_read_only (settings sv s) = x \<or> e = Sql ReloadConf True \<longrightarrow>
          live_read_only (settings sv (sv_exec sv e s)) = x)"
    proof (cases "\<exists>q b. e = Sql q b \<and> concerns_settings q")
      case False
      then have "\<forall>q b. e = Sql q b \<longrightarrow> \<not> concerns_settings q" by blast
      from settings_quiet [OF assms(1) _ this, of s] Cons.prems(1)
      have "settings sv (sv_exec sv e s) = settings sv s" by simp
      then show ?thesis using False Cons.prems(3) by auto
    next
      case True
      then obtain q b where e: "e = Sql q b" "concerns_settings q" by blast
      have "settings sv (sv_exec sv (Sql q True) s) = serve_event (settings sv s) (Sql q True)"
        using settings_good [OF assms(1), of "Sql q True" s] by simp
      moreover have "settings sv (sv_exec sv e s) \<in> {settings sv s, settings sv (sv_exec sv (Sql q True) s)}"
        using assms(1) unfolding e documented_def by (cases b) simp_all
      moreover have "q \<noteq> AlterReadOnly (\<not> x)" using Cons.prems(2) e by auto
      ultimately show ?thesis using Cons.prems(3) e settings_good [OF assms(1), of "Sql q True" s]
        by (cases q) auto
    qed
    then show ?case using Cons.IH [of "sv_exec sv e s"] Cons.prems(1,2) by (auto simp: after_def)
  qed
  then show "stored_read_only (after sv h s) = x"
    "live_read_only (settings sv s) = x \<or> Sql ReloadConf True \<in> set h \<Longrightarrow> live_read_only (after sv h s) = x"
    by auto
qed

lemma fenced_by_settings:
  assumes "documented sv" "rejoin_free es" "fenced_by es" "list_all watchdog_statement ws" "h \<in> shuffles es ws"
  shows "stored_read_only (after sv h s) \<and> live_read_only (after sv h s)"
proof -
  obtain xs ys zs where es: "es = xs @ Sql (AlterReadOnly True) True # ys @ Sql ReloadConf True # zs"
    and no: "\<forall>b. Sql (AlterReadOnly False) b \<notin> set (ys @ zs)"
    using assms(3) unfolding fenced_by_def by blast
  obtain as bs vs where h: "h = as @ Sql (AlterReadOnly True) True # bs"
    and bs: "bs \<in> shuffles (ys @ Sql ReloadConf True # zs) vs" "set vs \<subseteq> set ws"
    using shuffles_split [OF assms(5) [unfolded es]] by blast
  have set: "set bs = set ys \<union> {Sql ReloadConf True} \<union> set zs \<union> set vs" using set_shuffles [OF bs(1)] by auto
  have ws: "watchdog_statement e" if "e \<in> set vs" for e using assms(4) bs(2) that by (auto simp: list_all_iff)
  let ?s = "sv_exec sv (Sql (AlterReadOnly True) True) (fold (sv_exec sv) as s)"
  have free: "rejoin_free bs" using assms(2) ws unfolding es rejoin_free_def set by fastforce
  have "\<forall>b. Sql (AlterReadOnly (\<not> True)) b \<notin> set bs" using no ws unfolding set by fastforce
  moreover have "stored_read_only (settings sv ?s) = True" using assms(1) unfolding documented_def by simp
  moreover have "after sv h s = after sv bs ?s" unfolding h by (simp add: after_def)
  ultimately show ?thesis using stays_stored [OF assms(1) free, of True ?s] set by auto
qed

text \<open>
  C2: The server does what the supervisor means. Take a PostgreSQL server that behaves as
  documented, a run in which no statement of the supervisor fails and no rejoin script is started,
  and any statements of the deadman watchdog in between. After an iteration on a server out of
  recovery without authority the server is read-only, stored and in force, whatever the watchdog
  did. If the watchdog ran no statement, the server is writable exactly if the iteration had
  authority; its standby list is the quorum list if it had authority over a decision with
  synchronous replication, and empty without synchronous replication; and what the supervisor
  remembers of the two settings is what is stored and in force.
\<close>

theorem server_is_writable_iff_authorized:
  assumes "run_ticks os cfg ts (init_sup cur now, io0) = (st, io)" "io_events io = io_events io0 @ es0"
    and "tick os cfg i (st, io) = (st', io')" "io_events io' = io_events io @ es"
    and "succeeded (es0 @ es)" "\<not> i_in_recovery i" "st1 = fst (prepare os cfg i (st, io))"
    and "documented sv" "\<forall>cmd. SpawnRejoin cmd \<notin> set (es0 @ es)"
    and "list_all watchdog_statement ws" "h \<in> shuffles (es0 @ es) ws"
  shows "(\<not> authority cfg i st1 \<longrightarrow> stored_read_only (after sv h s) \<and> live_read_only (after sv h s)) \<and>
    (ws = [] \<longrightarrow>
      (live_read_only (after sv h s) \<longleftrightarrow> \<not> authority cfg i st1) \<and>
      (cf_synchronous cfg \<and> authority cfg i st1 \<and> sp_decided st1 \<noteq> None \<longrightarrow>
        live_sync (after sv h s) = cf_sync_target cfg) \<and>
      (\<not> cf_synchronous cfg \<longrightarrow> live_sync (after sv h s) = []) \<and>
      knows st' (after sv h s))"
proof -
  obtain io1 where p: "prepare os cfg i (st, io) = (st1, io1)"
    using assms(7) by (cases "prepare os cfg i (st, io)") simp
  have ok: "succeeded es0" "succeeded es" and free: "rejoin_free (es0 @ es)"
    using assms(5,9) by (simp_all add: rejoin_free_def)
  have "fenced_by (es0 @ es)" if "\<not> authority cfg i st1"
    using tick_fences [OF assms(3,4) ok(2) assms(6) p that] known_fenced_run [OF assms(1,2) ok(1)] by blast
  then have fence: "\<not> authority cfg i st1 \<longrightarrow> stored_read_only (after sv h s) \<and> live_read_only (after sv h s)"
    using fenced_by_settings [OF assms(8) free _ assms(10,11)] by blast
  have "knows st (after_events (settings sv s) es0)" using knows_run [OF assms(1,2) ok(1)] .
  note k = primary_server [OF assms(3,4) ok(2) assms(6) p this]
  have "after sv h s = after_events (after_events (settings sv s) es0) es" if "ws = []"
    using after_succeeded [OF assms(8,5) free] assms(11) that by simp
  then show ?thesis
    using fence k by (auto simp: knows_def knows_read_only_def knows_sync_def want_sync_def split: option.splits)
qed

text \<open>A server that does only what is documented.\<close>

definition plain_server :: "server_settings server" where
  "plain_server = \<lparr>sv_exec = \<lambda>e s. serve_event s e, settings = id\<rparr>"

lemma plain_documented: "documented plain_server"
proof -
  have "serve_event s (Sql q b) = s" if "\<not> concerns_settings q" for q b s
    using that by (cases q) simp_all
  moreover have "serve_event s e = s" if "\<forall>q b. e \<noteq> Sql q b" for e s
  proof (cases e)
    case (Sql q b)
    then show ?thesis using that by blast
  qed simp_all
  ultimately show ?thesis by (simp add: documented_def plain_server_def)
qed

theorem server_is_writable_iff_authorized_witness:
  "\<exists>sv. sv = after plain_server (io_events (snd (tick (os_ex {}) cfg_ex confirmed_tick_ex (decided_sup_ex, io_ex))))
       \<lparr>stored_read_only = True, stored_sync = [], live_read_only = True, live_sync = []\<rparr> \<and>
     (live_read_only sv \<longleftrightarrow> \<not> authority cfg_ex confirmed_tick_ex confirmed_sup_ex)"
proof -
  let ?t = "tick (os_ex {}) cfg_ex confirmed_tick_ex (decided_sup_ex, io_ex)"
  obtain post where es: "io_events (snd ?t) =
    [Heartbeat, Sql ShowDataDirectory True, Sql (CreateSlot 2) True, Sql (CreateSlot 3) True,
     Sql (AlterSync ''ANY 1 (node2, node3)'') True, Sql ReloadConf True,
     Sql (AlterReadOnly False) True, Sql ReloadConf True] @ post"
    and post: "\<forall>q b. Sql q b \<notin> set post" "rejoin_free post"
    using confirmed_events_ex by (auto simp: rejoin_free_def)
  have "succeeded post" using post(1) by (auto simp: succeeded_def list_all_iff split: event.split)
  then have ok: "succeeded ([] @ io_events (snd ?t))" and free: "\<forall>cmd. SpawnRejoin cmd \<notin> set ([] @ io_events (snd ?t))"
    using post(2) unfolding es by (simp_all add: rejoin_free_def)
  have run: "run_ticks (os_ex {}) cfg_ex [] (init_sup (Some \<lparr>dec_seq = 1, dec_primary = 1\<rparr>) now_ex, io_ex) =
      (decided_sup_ex, io_ex)"
    by (simp add: run_ticks_def decided_sup_ex_def)
  have "\<not> i_in_recovery confirmed_tick_ex" by (simp add: confirmed_tick_ex_def tick_ex_def)
  from server_is_writable_iff_authorized [OF run _ run_ex(1) run_ex(2) ok this refl plain_documented free,
      of "[]" "io_events (snd ?t)"]
  show ?thesis unfolding confirmed_prepare_ex by simp
qed

section \<open>A reload that failed\<close>

text \<open>
  C37: An unfence that failed halfway is not undone. Take a server that behaves as documented, and a
  node that the supervisor records as fenced; the read-write statement of an iteration succeeded
  and its reload was reported as failed. The supervisor then still takes the node for fenced: if
  the next iteration runs on a server out of recovery, is not a stalled one and has no authority,
  it sends no read-only statement, the stored configuration stays read-write, and any reload that
  succeeds in that iteration puts it in force on a node that has no authority.
\<close>

theorem half_failed_unfence_is_not_fenced_again:
  assumes "tick os cfg i (st, io) = (st', io')" "io_events io' = io_events io @ es"
    and "sp_applied_read_only (fst (prepare os cfg i (st, io))) = Some True"
    and "es = xs @ [Sql (AlterReadOnly False) True, Sql ReloadConf False] @ ys"
    and "tick os cfg i2 (st', io') = (st2, io2)" "io_events io2 = io_events io' @ es2"
    and "\<not> i_in_recovery i2" "\<not> stalled i2 st'"
    and "\<not> authority cfg i2 (fst (prepare os cfg i2 (st', io')))"
    and "documented sv" "\<forall>cmd. SpawnRejoin cmd \<notin> set (es @ es2)"
  shows "(\<forall>b. Sql (AlterReadOnly True) b \<notin> set es2) \<and> sp_applied_read_only st2 = Some True \<and>
    \<not> stored_read_only (after sv (es @ es2) sys) \<and>
    (Sql ReloadConf True \<in> set es2 \<longrightarrow> \<not> live_read_only (after sv (es @ es2) sys))"
proof -
  obtain st1 io1 where p: "prepare os cfg i (st, io) = (st1, io1)" by fastforce
  have ro1: "sp_applied_read_only st1 = Some True" using assms(3) p by simp
  have un: "Sql (AlterReadOnly False) True \<in> set es" using assms(4) by simp
  then have rec: "\<not> i_in_recovery i" using standby_no_unfence [OF assms(1) _ assms(2)] by blast
  obtain pre f s u post where es: "es = pre @ f @ s @ u @ post" "calm pre" "calm post"
    and r: "role_events cfg (authority cfg i st1) st1 st' f s u"
    using tick_primary [OF assms(1) rec p assms(2)] by blast
  have inu: "Sql (AlterReadOnly False) True \<in> set u" and a: "authority cfg i st1"
    using role_sql(1) [OF r] un around_role [OF es(2,3)] unfolding es(1) by auto
  have "u = [Sql (AlterReadOnly False) True, Sql ReloadConf False]"
  proof -
    obtain g where u: "u = [Sql (AlterReadOnly False) True, Sql ReloadConf g]"
      using r inu by (auto simp: role_events_def sets_list_def setting_events_def split: if_splits)
    have nin: "Sql (AlterReadOnly False) True \<notin> set (pre @ f @ s)"
      using r a calm_no_change(1) [OF es(2)] unfolding role_events_def
      by (auto dest: sets_list_sql(1))
    have "xs @ Sql (AlterReadOnly False) True # (Sql ReloadConf False # ys) =
        (pre @ f @ s) @ Sql (AlterReadOnly False) True # (Sql ReloadConf g # post)"
      using es(1) assms(4) u by simp
    moreover have "Sql (AlterReadOnly False) True \<notin> set (Sql ReloadConf g # post)"
      using calm_no_change(1) [OF es(3)] by simp
    ultimately have "Sql ReloadConf False # ys = Sql ReloadConf g # post"
      using nin by (metis append_Cons_eq_iff)
    then show ?thesis using u by simp
  qed
  then have ro': "sp_applied_read_only st' = Some True"
    using r ro1 a by (auto simp: role_events_def sets_list_def setting_events_def split: if_splits)
  obtain st3 io3 where p2: "prepare os cfg i2 (st', io') = (st3, io3)" by fastforce
  have ro3: "sp_applied_read_only st3 = Some True" using prepare_fields(1) [OF p2] assms(8) ro' by simp
  have a2: "authority cfg i2 st3 = False" using assms(9) p2 by simp
  obtain pre2 f2 s2 u2 post2 where es2: "es2 = pre2 @ f2 @ s2 @ u2 @ post2" "calm pre2" "calm post2"
    and r2: "role_events cfg False st3 st2 f2 s2 u2"
    using tick_primary [OF assms(5,7) p2 assms(6)] unfolding a2 by blast
  have none: "\<forall>b. Sql (AlterReadOnly True) b \<notin> set es"
    using role_sql(2) [OF r] a around_role [OF es(2,3)] unfolding es(1) by fastforce
  have free: "rejoin_free es" "rejoin_free es2" using assms(11) by (auto simp: rejoin_free_def)
  have stored: "stored_read_only (after sv es sys) = False"
  proof -
    let ?s = "sv_exec sv (Sql (AlterReadOnly False) True) (fold (sv_exec sv) xs sys)"
    have "stored_read_only (settings sv ?s) = False" using assms(10) unfolding documented_def by simp
    moreover have "rejoin_free (Sql ReloadConf False # ys)" using free(1) unfolding assms(4) by simp
    moreover have "\<forall>b. Sql (AlterReadOnly (\<not> False)) b \<notin> set (Sql ReloadConf False # ys)"
      using none unfolding assms(4) by simp
    ultimately show ?thesis
      using stays_stored(1) [OF assms(10), of "Sql ReloadConf False # ys" False ?s] unfolding assms(4)
      by (simp add: after_def)
  qed
  have none2: "\<forall>b. Sql (AlterReadOnly True) b \<notin> set es2"
    using role_sql(2) [OF r2] ro3 around_role [OF es2(2,3)] unfolding es2(1) by fastforce
  moreover have "sp_applied_read_only st2 = Some True"
    using r2 ro3 by (auto simp: role_events_def sets_list_def split: if_splits)
  moreover have "\<forall>b. Sql (AlterReadOnly (\<not> False)) b \<notin> set es2" using none2 by simp
  note stays_stored [OF assms(10) free(2) this stored [unfolded after_def]]
  ultimately show ?thesis unfolding after_append by auto
qed

theorem half_failed_unfence_is_not_fenced_again_witness:
  "\<exists>st. \<exists>i2. let (st1, io1) = tick (os_ex {1}) cfg_ex tick_ex (st, io_ex);
       (st2, io2) = tick (os_ex {1}) cfg_ex i2 (st1, io1)
     in dec_primary (the (i_current i2)) \<noteq> cf_node_id cfg_ex \<and> sp_applied_read_only st2 = Some True"
proof -
  let ?st = "sup_ex\<lparr>sp_applied_read_only := Some True, sp_applied_sync := Some ''ANY 1 (node2, node3)''\<rparr>"
  let ?i2 = "tick_ex\<lparr>i_loop_now := 0, i_current := Some \<lparr>dec_seq = 2, dec_primary = 2\<rparr>\<rparr>"
  let ?c = "tick (os_ex {1}) cfg_ex tick_ex (?st, io_ex)"
  let ?c2 = "tick (os_ex {1}) cfg_ex ?i2 ?c"
  have p: "prepare os cfg_ex tick_ex (?st, io) = (?st\<lparr>sp_ticks := 1\<rparr>, emit Heartbeat io)" for os :: "nat os" and io
    by (rule prepare_quiet_ex) (simp_all add: sup_ex_def init_sup_def)
  have q: "quorum_ok cfg_ex (i_contact_now tick_ex) (?st\<lparr>sp_ticks := 1\<rparr>)"
    by (simp add: quorum_ok_def reachable_def duration_since_def quorum_lease_def from_millis_def tick_ex_defs)
  have phase: "io_events (snd (primary_phase (os_ex {1}) cfg_ex tick_ex True (?st\<lparr>sp_ticks := 1\<rparr>, emit Heartbeat io_ex))) =
    [Heartbeat] @ [Sql (AlterReadOnly False) True, Sql ReloadConf False]"
    by (simp add: primary_eval tick_ex_defs)
  obtain post where es: "io_events (snd ?c) =
      [Heartbeat] @ [Sql (AlterReadOnly False) True, Sql ReloadConf False] @ post"
    using tick_plain [OF p [of "os_ex {1}" io_ex] q] phase plain_ex(6) by auto
  obtain es2 where es2: "io_events (snd ?c2) = io_events (snd ?c) @ es2"
    using events_extend [of "os_ex {1}" cfg_ex ?i2 "fst ?c" "snd ?c" "fst ?c2" "snd ?c2"] by auto
  have dec: "sp_decided (fst (prepare (os_ex {1}) cfg_ex ?i2 (fst ?c, snd ?c))) = Some \<lparr>dec_seq = 2, dec_primary = 2\<rparr>"
    using prepare_fields(5) [of "os_ex {1}" cfg_ex ?i2 "fst ?c" "snd ?c"
        "fst (prepare (os_ex {1}) cfg_ex ?i2 (fst ?c, snd ?c))" "snd (prepare (os_ex {1}) cfg_ex ?i2 (fst ?c, snd ?c))"]
    by (auto simp: adopts_def split: if_splits)
  then have "\<not> authority cfg_ex ?i2 (fst (prepare (os_ex {1}) cfg_ex ?i2 (fst ?c, snd ?c)))"
    using authority_raw [of cfg_ex ?i2 "fst (prepare (os_ex {1}) cfg_ex ?i2 (fst ?c, snd ?c))"]
    by (auto simp: raw_auth_def cfg_ex_def)
  moreover have "\<forall>cmd. SpawnRejoin cmd \<notin> set (io_events (snd ?c) @ es2)"
    using tick_no_rejoin [OF _ es2] tick_no_rejoin [of cfg_ex "os_ex {1}" tick_ex "(?st, io_ex)"]
    by (auto simp: io_ex_def cfg_ex_def)
  ultimately have "sp_applied_read_only (fst ?c2) = Some True"
    using half_failed_unfence_is_not_fenced_again [OF run_ex(1) run_ex(2) _ es run_ex(1) _ _ _ _ plain_documented, of ?i2 es2] es2
    by (simp add: p plain_ex stalled_def duration_since_def)
  then show ?thesis
    by (intro exI [of _ ?st] exI [of _ ?i2]) (simp add: case_prod_unfold Let_def cfg_ex_def)
qed

end
