(* ===== verification/LogRefinement.thy ===== *)
theory LogRefinement
  imports StoreSafety
begin

text \<open>
  The log store of \<open>src/store.rs\<close> against what Raft expects of a log: a vote, two log ids and a
  partial map from indexes to entries, changed by each call as its specification says, and after
  a crash in one of the states it has been in. The interface \<open>simulation\<close> is a functional
  refinement; the store's memory interprets it.
\<close>

section \<open>Functional refinement\<close>

fun spec_trace :: "('x \<Rightarrow> 'a \<Rightarrow> 'a) \<Rightarrow> 'x list \<Rightarrow> 'a \<Rightarrow> 'a list" where
  "spec_trace spec [] a = [a]"
| "spec_trace spec (x # xs) a = a # spec_trace spec xs (spec x a)"

locale simulation =
  fixes inv :: "'c \<Rightarrow> bool" and eff :: "'x \<Rightarrow> 'c \<Rightarrow> 'c" and spec :: "'x \<Rightarrow> 'a \<Rightarrow> 'a" and abs :: "'c \<Rightarrow> 'a"
  assumes eff_inv: "inv c \<Longrightarrow> inv (eff x c)"
    and eff_abs: "inv c \<Longrightarrow> abs (eff x c) = spec x (abs c)"
begin

text \<open>The states of a run abstract to the run of the specification.\<close>

lemma trace_abs: "inv c \<Longrightarrow> map abs (spec_trace eff xs c) = spec_trace spec xs (abs c)"
  by (induction xs arbitrary: c) (simp_all add: eff_inv eff_abs)

lemma trace_inv: "inv c \<Longrightarrow> list_all inv (spec_trace eff xs c)"
  by (induction xs arbitrary: c) (simp_all add: eff_inv)

end

section \<open>The abstract log\<close>

record ('v, 'l, 'm) log_spec =
  ls_vote :: "'v option"
  ls_committed :: "'l log_id option"
  ls_purged :: "'l log_id option"
  ls_entry :: "u64 \<Rightarrow> ('l, 'm) entry option"

fun spec_log :: "('v, 'l, 'm) log_op \<Rightarrow> ('v, 'l, 'm) log_spec \<Rightarrow> ('v, 'l, 'm) log_spec" where
  "spec_log (SaveVote v) a = a\<lparr>ls_vote := Some v\<rparr>"
| "spec_log (SaveCommitted c) a = a\<lparr>ls_committed := c\<rparr>"
| "spec_log (Append es) a = a\<lparr>ls_entry := foldl (\<lambda>m e. m(e_index e \<mapsto> e)) (ls_entry a) es\<rparr>"
| "spec_log (Truncate lid) a = a\<lparr>ls_entry := ls_entry a |` {i. i < lid_index lid}\<rparr>"
| "spec_log (Purge lid) a =
     a\<lparr>ls_purged := Some lid, ls_entry := ls_entry a |` {i. lid_index lid < i}\<rparr>"

definition log_abs :: "('v, 'l, 'm) log_state \<Rightarrow> ('v, 'l, 'm) log_spec" where
  "log_abs st = \<lparr>ls_vote = l_vote st, ls_committed = l_committed st, ls_purged = l_last_purged st,
     ls_entry = map_of (l_log st)\<rparr>"

lemma foldl_upd:
  "foldl (\<lambda>m e. m(e_index e \<mapsto> e)) m es = m ++ map_of (rev (map (\<lambda>e. (e_index e, e)) es))"
  by (induction es rule: rev_induct) (auto simp: map_add_def fun_eq_iff)

lemma log_effect_abs: "log_ok st \<Longrightarrow> log_abs (log_effect x st) = spec_log x (log_abs st)"
proof -
  assume "log_ok st"
  then have bt: "bt_ok (l_log st)" by (simp add: log_ok_def)
  have keep: "{k. \<not> lid_index lid \<le> k} = {i. i < lid_index lid}"
    "{k. \<not> k \<le> lid_index lid} = {i. lid_index lid < i}" for lid :: "'b log_id" by auto
  show ?thesis
    by (cases x) (simp_all add: log_abs_def foldl_upd map_of_log_insert_all [OF bt]
        map_of_log_remove_range [OF bt] keep)
qed

interpretation raft_log: simulation log_ok log_effect spec_log log_abs
  by unfold_locales (simp_all add: log_effect_ok log_effect_abs)

text \<open>The memory of a run of calls, whatever becomes of the file.\<close>

lemma run_memory:
  "run_store (log_step ser) xs ls s = (ms, ts) \<Longrightarrow>
     map l_state ms = spec_trace log_effect (map snd xs) (l_state ls)"
proof (induction xs arbitrary: ls s ms ts)
  case (Cons x xs)
  obtain a ls' tr where x: "log_step ser x ls s = (a, ls', tr)" by (metis prod_cases3)
  obtain ms' ts' where r: "run_store (log_step ser) xs ls' (last tr) = (ms', ts')" by fastforce
  then show ?case
    using Cons.prems Cons.IH [OF r] x log_step_effect [OF x] by auto
qed simp

text \<open>
  C8: The log store refines Raft's log: the memory after each call abstracts to the abstract log
  after that call, whether or not the file could be written; reads return the entries of the
  abstract log in the range, in order; and after a crash at any point of any calls, starting
  from a file that holds the memory, the recovered log is well formed and abstracts to a state
  of the abstract log between the first call and the last.
\<close>

theorem log_store_refines_the_log:
  assumes "codec_ok ser de" "target_ok (l_path ls)" "all_synced s (l_path ls)" "log_ok (l_state ls)"
    and "recovered de dflt (l_path ls) s = {Loaded (l_state ls)}"
    and "run_store (log_step ser) xs ls s = (ms, ts)"
  shows "map (\<lambda>n. log_abs (l_state n)) ms = spec_trace spec_log (map snd xs) (log_abs (l_state ls)) \<and>
    (\<forall>n \<in> set ms. \<forall>lo hi es. try_get_log_entries lo hi n = Some es \<longrightarrow>
       sorted_wrt (<) (map e_index es) \<and>
       set es = {e. ls_entry (log_abs (l_state n)) (e_index e) = Some e \<and> above lo (e_index e) \<and> below hi (e_index e)}) \<and>
    (\<forall>t \<in> set ts. \<forall>got \<in> recovered de dflt (l_path ls) t. \<exists>st. got = Loaded st \<and> log_ok st \<and>
       log_abs st \<in> set (spec_trace spec_log (map snd xs) (log_abs (l_state ls))))"
proof -
  note mem = run_memory [OF assms(6)]
  have trace: "map (\<lambda>n. log_abs (l_state n)) ms = spec_trace spec_log (map snd xs) (log_abs (l_state ls))"
    using raft_log.trace_abs [OF assms(4), of "map snd xs"] unfolding mem [symmetric] by (simp add: comp_def)
  have ok: "log_ok (l_state n)" if "n \<in> set ms" for n
    using raft_log.trace_inv [OF assms(4), of "map snd xs"] that
    unfolding mem [symmetric] by (simp add: list_all_iff)
  have reads: "sorted_wrt (<) (map e_index es) \<and>
      set es = {e. ls_entry (log_abs (l_state n)) (e_index e) = Some e \<and> above lo (e_index e) \<and> below hi (e_index e)}"
    if "n \<in> set ms" "try_get_log_entries lo hi n = Some es" for n lo hi es
    using log_reads_are_exact [OF ok [OF that(1)], of lo hi] that(2) by (simp add: log_abs_def)
  have first: "ls \<in> set ms" using run_store_head [OF assms(6)] by simp
  have "recovered de dflt (l_path ls) t \<subseteq> (\<lambda>n. Loaded (l_state n)) ` set ms" if "t \<in> set ts" for t
    using log.run_recovers [OF _ assms(6) that, of de "l_path ls" dflt] assms(1-3,5) first
    by (auto simp: disk_ok_def)
  moreover have "log_abs (l_state n) \<in> set (spec_trace spec_log (map snd xs) (log_abs (l_state ls)))"
    if "n \<in> set ms" for n
    using that unfolding trace [symmetric] by simp
  ultimately show ?thesis using trace reads ok by blast
qed

theorem log_store_refines_the_log_witness:
  "let ls = log_ex\<lparr>l_state := default_log_state\<lparr>l_vote := Some 7\<rparr>\<rparr>;
       s = \<lparr>dir = [l_path log_ex \<mapsto> \<lparr>content = [2], synced = True\<rparr>], olds = \<lambda>_. []\<rparr>;
       run = run_store (log_step (table_ser log_table)) [(\<lambda>_. Some 0, Append [entry_ex])] ls s
   in map (\<lambda>n. log_abs (l_state n)) (fst run) =
        spec_trace spec_log [Append [entry_ex]] (log_abs (default_log_state\<lparr>l_vote := Some 7\<rparr>))"
proof -
  let ?ls = "log_ex\<lparr>l_state := default_log_state\<lparr>l_vote := Some 7\<rparr>\<rparr>"
  let ?s = "\<lparr>dir = [l_path log_ex \<mapsto> \<lparr>content = [2], synced = True\<rparr>], olds = \<lambda>_. []\<rparr>"
  have ok: "target_ok (l_path ?ls)" "all_synced ?s (l_path ?ls)" "log_ok (l_state ?ls)"
    using example_disk(1,3) by (simp_all add: all_synced_def entries_def log_ok_def log_ex_def open_log_def
        default_log_state_def bt_ok_def)
  have "recovered (table_de log_table) default_log_state (l_path ?ls) ?s = {Loaded (l_state ?ls)}"
    unfolding recovered_possible [OF ok(2)]
    by (simp add: possible_def entries_def load_def table_de_def log_table_def)
  note refines = log_store_refines_the_log [OF example_codecs(1) ok this prod.collapse [symmetric]]
  have sel: "l_state ?ls = default_log_state\<lparr>l_vote := Some 7\<rparr>" by simp
  show ?thesis
    unfolding Let_def using conjunct1 [OF refines [of "[(\<lambda>_. Some 0, Append [entry_ex])]"]]
    by (simp only: list.map snd_conv sel)
qed

end
