(* ===== verification/Durability.thy ===== *)
theory Durability
  imports Quorum
begin

text \<open>
  \<open>packages/consensus-model/src/lib.rs\<close>: the durability model (\<open>Cluster\<close>), which the
  repository explores for three and five nodes. Log positions and terms keep their
  \<open>u64\<close> width; nodes are indices. The lemmas here carry the safety proof for every
  cluster size, acknowledgement quorum and bound.
\<close>

section \<open>The model\<close>

record cluster =
  nodes :: nat
  ack_quorum :: nat
  max_lsn :: u64
  max_term :: u64

record dstate =
  d_lsn :: "u64 list"
  d_alive :: "bool list"
  d_primary :: "nat option"
  d_acked :: u64
  d_term :: u64

datatype daction = Write | Replicate nat | Ack | Crash nat | Failover nat

definition cluster_majority :: "cluster \<Rightarrow> nat" where
  "cluster_majority c = nodes c div 2 + 1"

definition cmp_lsn :: "dstate \<Rightarrow> nat \<Rightarrow> nat \<Rightarrow> ordering" where
  "cmp_lsn s a b = ordering_then (cmp (d_lsn s ! a) (d_lsn s ! b)) (cmp b a)"

text \<open>
  One candidate per majority of live nodes, collected in a \<open>BTreeSet\<close>. \<open>max_by\<close> is
  unwrapped in the code: a majority is never empty.
\<close>

definition possible_new_primaries :: "cluster \<Rightarrow> dstate \<Rightarrow> nat list" where
  "possible_new_primaries c s =
     (let maj = cluster_majority c;
          alive = length (filter (\<lambda>i. d_alive s ! i) [0..<nodes c])
      in if alive < maj then []
         else sorted_list_of_set (set (List.map_filter
           (\<lambda>m. let members = mask_members (nodes c) m
                in if length members \<noteq> maj \<or> list_ex (\<lambda>i. \<not> d_alive s ! i) members then None
                   else max_by (cmp_lsn s) members)
           (masks (nodes c)))))"

definition cluster_init_states :: "cluster \<Rightarrow> dstate list" where
  "cluster_init_states c =
     [\<lparr> d_lsn = replicate (nodes c) 0, d_alive = replicate (nodes c) True, d_primary = Some 0,
        d_acked = 0, d_term = 0 \<rparr>]"

definition confirmers :: "cluster \<Rightarrow> dstate \<Rightarrow> nat \<Rightarrow> nat" where
  "confirmers c s p = length (filter (\<lambda>i. d_alive s ! i \<and> d_lsn s ! i \<ge> d_lsn s ! p) [0..<nodes c])"

definition primary_actions :: "cluster \<Rightarrow> dstate \<Rightarrow> nat \<Rightarrow> daction list" where
  "primary_actions c s p =
     (if d_alive s ! p then
        (if d_lsn s ! p < max_lsn c then [Write] else [])
        @ (if d_lsn s ! p > 0 \<and> d_acked s < d_lsn s ! p \<and> confirmers c s p \<ge> ack_quorum c
           then [Ack] else [])
        @ map Replicate (filter (\<lambda>standby. standby \<noteq> p \<and> d_alive s ! standby
             \<and> d_lsn s ! standby < d_lsn s ! p) [0..<nodes c])
      else [])"

definition need_failover :: "dstate \<Rightarrow> bool" where
  "need_failover s = (case d_primary s of None \<Rightarrow> True | Some p \<Rightarrow> \<not> d_alive s ! p)"

definition cluster_actions :: "cluster \<Rightarrow> dstate \<Rightarrow> daction list" where
  "cluster_actions c s =
     (case d_primary s of None \<Rightarrow> [] | Some p \<Rightarrow> primary_actions c s p)
     @ map Crash (filter (\<lambda>i. d_alive s ! i) [0..<nodes c])
     @ (if need_failover s \<and> d_term s < max_term c
        then map Failover (possible_new_primaries c s) else [])"

fun cluster_next_state :: "cluster \<Rightarrow> dstate \<Rightarrow> daction \<Rightarrow> dstate option" where
  "cluster_next_state c s Write =
     (case d_primary s of None \<Rightarrow> None
      | Some p \<Rightarrow> Some (s\<lparr>d_lsn := (d_lsn s)[p := d_lsn s ! p + 1]\<rparr>))"
| "cluster_next_state c s (Replicate i) =
     (case d_primary s of None \<Rightarrow> None
      | Some p \<Rightarrow> Some (if d_lsn s ! i < d_lsn s ! p
                        then s\<lparr>d_lsn := (d_lsn s)[i := d_lsn s ! i + 1]\<rparr> else s))"
| "cluster_next_state c s Ack =
     (case d_primary s of None \<Rightarrow> None | Some p \<Rightarrow> Some (s\<lparr>d_acked := d_lsn s ! p\<rparr>))"
| "cluster_next_state c s (Crash i) = Some (s\<lparr>d_alive := (d_alive s)[i := False]\<rparr>)"
| "cluster_next_state c s (Failover w) = Some (s\<lparr>d_primary := Some w, d_term := d_term s + 1\<rparr>)"

definition cluster_within_boundary :: "cluster \<Rightarrow> dstate \<Rightarrow> bool" where
  "cluster_within_boundary c s \<longleftrightarrow>
     d_term s \<le> max_term c \<and> list_all (\<lambda>l. l \<le> max_lsn c) (d_lsn s)"

definition no_acked_loss :: "dstate \<Rightarrow> bool" where
  "no_acked_loss s = (case d_primary s of Some p \<Rightarrow> d_lsn s ! p \<ge> d_acked s | None \<Rightarrow> True)"

definition failover_after_ack :: "dstate \<Rightarrow> bool" where
  "failover_after_ack s \<longleftrightarrow> d_term s \<ge> 1 \<and> d_acked s \<ge> 1"

abbreviation cluster_explored :: "cluster \<Rightarrow> dstate \<Rightarrow> bool" where
  "cluster_explored c \<equiv> explored (cluster_init_states c) (cluster_actions c)
     (cluster_next_state c) (cluster_within_boundary c)"

section \<open>The failover candidates\<close>

interpretation lsn: key_comparator "cmp_lsn s" "\<lambda>i. (d_lsn s ! i, - int i)" for s
  by unfold_locales (auto simp: cmp_lsn_def ordering_then_def cmp_def less_prod_simp
      split: if_splits)

lemma majority_pos: "0 < cluster_majority c"
  by (simp add: cluster_majority_def)

lemma possible_new_primariesD:
  assumes "w \<in> set (possible_new_primaries c s)"
  obtains B where "B \<subseteq> {..<nodes c}" "card B = cluster_majority c" "w \<in> B"
    "\<And>i. i \<in> B \<Longrightarrow> d_alive s ! i" "\<And>i. i \<in> B \<Longrightarrow> d_lsn s ! i \<le> d_lsn s ! w"
proof -
  from assms obtain m where
    len: "length (mask_members (nodes c) m) = cluster_majority c"
    and al: "\<And>i. i \<in> set (mask_members (nodes c) m) \<Longrightarrow> d_alive s ! i"
    and mx: "max_by (cmp_lsn s) (mask_members (nodes c) m) = Some w"
    by (auto simp: possible_new_primaries_def Let_def map_filter_def list_ex_iff
        split: if_splits option.splits)
  show thesis
  proof (rule that [of "set (mask_members (nodes c) m)"])
    show "card (set (mask_members (nodes c) m)) = cluster_majority c"
      by (simp add: distinct_card len)
    show "w \<in> set (mask_members (nodes c) m)" by (rule lsn.max_by_in [OF mx])
    show "d_lsn s ! i \<le> d_lsn s ! w" if "i \<in> set (mask_members (nodes c) m)" for i
      using lsn.max_by_ge [OF mx that] by (auto simp: less_eq_prod_simp)
  qed (auto simp: set_mask_members al)
qed

lemma possible_new_primariesI:
  assumes n: "nodes c < 32"
    and B: "B \<subseteq> {..<nodes c}" "card B = cluster_majority c" "\<And>i. i \<in> B \<Longrightarrow> d_alive s ! i"
    and w: "w \<in> B" "\<And>i. i \<in> B \<Longrightarrow> (d_lsn s ! i, - int i) \<le> (d_lsn s ! w, - int w)"
  shows "w \<in> set (possible_new_primaries c s)"
proof -
  obtain m where m: "unat m < 2 ^ nodes c" "\<forall>i < nodes c. mask_bit m i \<longleftrightarrow> i \<in> B"
    using mask_exists [OF B(1) n] by blast
  have set: "set (mask_members (nodes c) m) = B"
    using m(2) B(1) by (auto simp: set_mask_members)
  have len: "length (mask_members (nodes c) m) = cluster_majority c"
    using distinct_card [of "mask_members (nodes c) m"] set B(2) by simp
  have mx: "max_by (cmp_lsn s) (mask_members (nodes c) m) = Some w"
    using w set by (intro lsn.max_by_unique) (auto simp: inj_on_def)
  have "m \<noteq> 0" using m(2) w(1) B(1) mask_of_members [of w "nodes c" m] by auto
  then have mem: "m \<in> set (masks (nodes c))" using m(1) masks_iff [OF n] by simp
  have "card B \<le> card {i. i < nodes c \<and> d_alive s ! i}"
    using B by (intro card_mono) auto
  then show ?thesis
    using mem len mx set B(2,3)
    by (auto simp: possible_new_primaries_def Let_def map_filter_def list_ex_iff length_filter_upt
        intro!: image_eqI [of _ _ m])
qed

section \<open>The invariant\<close>

text \<open>
  Nodes stay in range (so no index of the code panics), the nodes that hold every
  acknowledged position are at least an acknowledgement quorum, and the primary is one
  of them. Counting the primary itself, that quorum is never empty.
\<close>

definition ack_set :: "cluster \<Rightarrow> dstate \<Rightarrow> nat set" where
  "ack_set c s = {i. i < nodes c \<and> d_acked s \<le> d_lsn s ! i}"

definition dstate_wf :: "cluster \<Rightarrow> dstate \<Rightarrow> bool" where
  "dstate_wf c s \<longleftrightarrow> length (d_lsn s) = nodes c \<and> length (d_alive s) = nodes c \<and>
     (\<forall>p. d_primary s = Some p \<longrightarrow> p < nodes c)"

definition acked_inv :: "cluster \<Rightarrow> dstate \<Rightarrow> bool" where
  "acked_inv c s \<longleftrightarrow> dstate_wf c s \<and>
     (d_acked s = 0 \<or> max 1 (ack_quorum c) \<le> card (ack_set c s)) \<and>
     (\<forall>p. d_primary s = Some p \<longrightarrow> p \<in> ack_set c s)"

text \<open>The acknowledgement quorum meets every majority.\<close>

definition quorums_meet :: "cluster \<Rightarrow> bool" where
  "quorums_meet c \<longleftrightarrow> 0 < nodes c \<and> nodes c < max 1 (ack_quorum c) + cluster_majority c"

lemma primary_actionsD:
  "a \<in> set (primary_actions c s p) \<Longrightarrow> d_alive s ! p \<and>
     (a = Write \<and> d_lsn s ! p < max_lsn c \<or>
      a = Ack \<and> 0 < d_lsn s ! p \<and> d_acked s < d_lsn s ! p \<and> ack_quorum c \<le> confirmers c s p \<or>
      (\<exists>i < nodes c. a = Replicate i \<and> i \<noteq> p \<and> d_alive s ! i \<and> d_lsn s ! i < d_lsn s ! p))"
  by (auto simp: primary_actions_def split: if_splits)

lemma cluster_actionsD:
  assumes "a \<in> set (cluster_actions c s)"
  obtains (primary) p where "d_primary s = Some p" "a \<in> set (primary_actions c s p)"
  | (crash) i where "a = Crash i" "i < nodes c" "d_alive s ! i"
  | (failover) w where "a = Failover w" "need_failover s" "d_term s < max_term c"
      "w \<in> set (possible_new_primaries c s)"
  using assms by (cases "d_primary s")
    (auto simp: cluster_actions_def split: if_splits intro: primary crash failover)

lemma ack_set_mono:
  "(\<And>i. i < nodes c \<Longrightarrow> d_lsn s ! i \<le> d_lsn t ! i) \<Longrightarrow> d_acked t = d_acked s \<Longrightarrow>
     ack_set c s \<subseteq> ack_set c t"
  by (force simp: ack_set_def)

lemma ack_set_sub: "ack_set c s \<subseteq> {..<nodes c}"
  by (auto simp: ack_set_def)

lemma finite_ack_set [simp]: "finite (ack_set c s)"
  by (rule finite_subset [OF ack_set_sub]) simp

lemma acked_inv_grow:
  assumes "acked_inv c s" "dstate_wf c t" "\<And>i. i < nodes c \<Longrightarrow> d_lsn s ! i \<le> d_lsn t ! i"
    "d_acked t = d_acked s" "d_primary t = d_primary s"
  shows "acked_inv c t"
proof -
  have sub: "ack_set c s \<subseteq> ack_set c t" by (rule ack_set_mono) (use assms in auto)
  then have "card (ack_set c s) \<le> card (ack_set c t)" by (intro card_mono) auto
  with sub assms show ?thesis by (force simp: acked_inv_def)
qed

lemma acked_inv_ack:
  assumes inv: "acked_inv c s" and p: "d_primary s = Some p"
    and q: "ack_quorum c \<le> confirmers c s p"
  shows "acked_inv c (s\<lparr>d_acked := d_lsn s ! p\<rparr>)"
proof -
  let ?t = "s\<lparr>d_acked := d_lsn s ! p\<rparr>"
  have pin: "p \<in> ack_set c ?t"
    using inv p by (auto simp: ack_set_def acked_inv_def dstate_wf_def)
  have "confirmers c s p \<le> card (ack_set c ?t)"
    by (auto simp: confirmers_def length_filter_upt ack_set_def intro!: card_mono)
  moreover have "1 \<le> card (ack_set c ?t)"
    using pin by (metis One_nat_def Suc_leI card_gt_0_iff empty_iff finite_ack_set)
  ultimately have "max 1 (ack_quorum c) \<le> card (ack_set c ?t)" using q by simp
  with pin inv p show ?thesis by (auto simp: acked_inv_def dstate_wf_def)
qed

lemma acked_inv_failover:
  assumes inv: "acked_inv c s" and qm: "quorums_meet c"
    and w: "w \<in> set (possible_new_primaries c s)"
  shows "acked_inv c (s\<lparr>d_primary := Some w, d_term := d_term s + 1\<rparr>)"
proof -
  from w obtain B where B: "B \<subseteq> {..<nodes c}" "card B = cluster_majority c" "w \<in> B"
    "\<And>i. i \<in> B \<Longrightarrow> d_lsn s ! i \<le> d_lsn s ! w" by (elim possible_new_primariesD) blast
  have "d_acked s \<le> d_lsn s ! w"
  proof (cases "d_acked s = 0")
    case False
    with inv have "max 1 (ack_quorum c) \<le> card (ack_set c s)" by (simp add: acked_inv_def)
    moreover have "nodes c < max 1 (ack_quorum c) + card B"
      using qm B(2) by (simp add: quorums_meet_def)
    ultimately obtain i where "i \<in> ack_set c s" "i \<in> B"
      using counted.common [of _ "ack_set c s" "nodes c" B] ack_set_sub B(1) by blast
    then show ?thesis using B(4) [of i] by (auto simp: ack_set_def)
  qed simp
  then show ?thesis
    using inv B(1,3) by (auto simp: acked_inv_def dstate_wf_def ack_set_def)
qed

lemma acked_inv_init: "0 < nodes c \<Longrightarrow> s \<in> set (cluster_init_states c) \<Longrightarrow> acked_inv c s"
  by (auto simp: cluster_init_states_def acked_inv_def dstate_wf_def ack_set_def)

lemma acked_inv_step:
  assumes inv: "acked_inv c s" and qm: "quorums_meet c"
    and a: "a \<in> set (cluster_actions c s)" and st: "cluster_next_state c s a = Some t"
  shows "acked_inv c t"
  using a
proof (cases rule: cluster_actionsD)
  case (primary p)
  note len = inv [unfolded acked_inv_def dstate_wf_def]
  from primary(2) consider (w) "a = Write" "d_lsn s ! p < max_lsn c"
    | (k) "a = Ack" "ack_quorum c \<le> confirmers c s p"
    | (r) i where "a = Replicate i" "i < nodes c" "d_lsn s ! i < d_lsn s ! p"
    by (blast dest: primary_actionsD)
  then show ?thesis
  proof cases
    case w
    then show ?thesis
      using st primary(1) len word_inc [OF w(2)] inv
      by (intro acked_inv_grow [OF inv]) (auto simp: dstate_wf_def nth_list_update)
  next
    case k
    then show ?thesis using st primary(1) acked_inv_ack [OF inv primary(1)] by simp
  next
    case r
    then show ?thesis
      using st primary(1) len word_inc [OF r(3)] inv
      by (intro acked_inv_grow [OF inv]) (auto simp: dstate_wf_def nth_list_update)
  qed
next
  case (crash i)
  then show ?thesis
    using st inv by (intro acked_inv_grow [OF inv]) (auto simp: acked_inv_def dstate_wf_def)
next
  case (failover w)
  then show ?thesis using st acked_inv_failover [OF inv qm] by auto
qed

interpretation durable: safe_model "cluster_init_states c" "cluster_actions c"
    "cluster_next_state c" "cluster_within_boundary c" "\<lambda>s. quorums_meet c \<longrightarrow> acked_inv c s"
  for c
  by unfold_locales (auto simp: quorums_meet_def intro: acked_inv_init acked_inv_step)


section \<open>A run that loses an acknowledged position\<close>

text \<open>
  The state after \<open>j\<close> nodes hold position 1, position \<open>a\<close> is acknowledged and the
  first \<open>k\<close> nodes have crashed.
\<close>

definition loss_state :: "cluster \<Rightarrow> nat \<Rightarrow> u64 \<Rightarrow> nat \<Rightarrow> dstate" where
  "loss_state c j a k =
     \<lparr> d_lsn = map (\<lambda>i. if i < j then 1 else 0) [0..<nodes c],
       d_alive = map (\<lambda>i. \<not> i < k) [0..<nodes c], d_primary = Some 0, d_acked = a, d_term = 0 \<rparr>"

lemma loss_state_simps [simp]:
  "d_lsn (loss_state c j a k) = map (\<lambda>i. if i < j then 1 else 0) [0..<nodes c]"
  "d_alive (loss_state c j a k) = map (\<lambda>i. \<not> i < k) [0..<nodes c]"
  "d_primary (loss_state c j a k) = Some 0" "d_acked (loss_state c j a k) = a"
  "d_term (loss_state c j a k) = 0"
  by (simp_all add: loss_state_def)

lemma cluster_actionsI:
  "d_primary s = Some p \<Longrightarrow> a \<in> set (primary_actions c s p) \<Longrightarrow> a \<in> set (cluster_actions c s)"
  "i < nodes c \<Longrightarrow> d_alive s ! i \<Longrightarrow> Crash i \<in> set (cluster_actions c s)"
  "need_failover s \<Longrightarrow> d_term s < max_term c \<Longrightarrow> w \<in> set (possible_new_primaries c s) \<Longrightarrow>
     Failover w \<in> set (cluster_actions c s)"
  by (auto simp: cluster_actions_def)

lemma pos_of_ge_one: "(1 :: u64) \<le> x \<Longrightarrow> 0 < x"
  by (simp add: word_less_nat_alt word_le_nat_alt)

lemma loss_state_within:
  "1 \<le> max_lsn c \<Longrightarrow> cluster_within_boundary c (loss_state c j a k)"
  by (auto simp: cluster_within_boundary_def list_all_iff)

lemma loss_write:
  assumes "0 < nodes c" "1 \<le> max_lsn c"
  shows "cluster_explored c (loss_state c 1 0 0)"
proof (rule explored_step [where s = "loss_state c 0 0 0" and a = Write])
  show "cluster_explored c (loss_state c 0 0 0)"
    using assms by (intro explored_init loss_state_within)
      (simp_all add: cluster_init_states_def loss_state_def map_replicate_const)
  show "Write \<in> set (cluster_actions c (loss_state c 0 0 0))"
    using assms pos_of_ge_one [of "max_lsn c"]
    by (intro cluster_actionsI(1) [where p = 0]) (simp_all add: primary_actions_def)
  show "cluster_next_state c (loss_state c 0 0 0) Write = Some (loss_state c 1 0 0)"
    using assms by (auto simp: loss_state_def intro!: nth_equalityI simp: nth_list_update)
qed (rule loss_state_within [OF assms(2)])

lemma loss_replicate:
  assumes "1 \<le> j" "j < nodes c" "1 \<le> max_lsn c" "cluster_explored c (loss_state c j 0 0)"
  shows "cluster_explored c (loss_state c (Suc j) 0 0)"
proof (rule explored_step [where s = "loss_state c j 0 0" and a = "Replicate j"])
  show "Replicate j \<in> set (cluster_actions c (loss_state c j 0 0))"
    using assms
    by (intro cluster_actionsI(1) [where p = 0]) (auto simp: primary_actions_def)
  show "cluster_next_state c (loss_state c j 0 0) (Replicate j) = Some (loss_state c (Suc j) 0 0)"
    using assms by (auto simp: loss_state_def intro!: nth_equalityI simp: nth_list_update)
qed (use assms loss_state_within in auto)

lemma loss_replicated:
  assumes "0 < nodes c" "1 \<le> max_lsn c" "1 \<le> j" "j \<le> nodes c"
  shows "cluster_explored c (loss_state c j 0 0)"
  using assms(3,4)
proof (induction j rule: dec_induct)
  case base
  then show ?case using assms loss_write by simp
next
  case (step j)
  then show ?case using assms(2) by (intro loss_replicate) auto
qed

lemma loss_confirmers:
  assumes "1 \<le> j" "j \<le> nodes c"
  shows "confirmers c (loss_state c j 0 0) 0 = j"
proof -
  have "{i. i < nodes c \<and> d_alive (loss_state c j 0 0) ! i \<and>
      d_lsn (loss_state c j 0 0) ! i \<ge> d_lsn (loss_state c j 0 0) ! 0} = {..<j}"
    using assms by (auto split: if_splits)
  then show ?thesis by (simp add: confirmers_def length_filter_upt)
qed

lemma loss_acked:
  assumes "1 \<le> j" "j \<le> nodes c" "ack_quorum c \<le> j" "1 \<le> max_lsn c"
  shows "cluster_explored c (loss_state c j 1 0)"
proof (rule explored_step [where s = "loss_state c j 0 0" and a = Ack])
  show "cluster_explored c (loss_state c j 0 0)"
    using assms by (intro loss_replicated) auto
  show "Ack \<in> set (cluster_actions c (loss_state c j 0 0))"
    using assms loss_confirmers [OF assms(1,2)]
    by (intro cluster_actionsI(1) [where p = 0]) (simp_all add: primary_actions_def)
  show "cluster_next_state c (loss_state c j 0 0) Ack = Some (loss_state c j 1 0)"
    using assms by (auto simp: loss_state_def)
qed (use assms loss_state_within in auto)

lemma crash_next:
  "k < m \<Longrightarrow> (map (\<lambda>i. \<not> i < k) [0..<m])[k := False] = map (\<lambda>i. \<not> i < Suc k) [0..<m]"
  by (rule nth_equalityI) (simp_all add: nth_list_update less_Suc_eq)

lemma loss_crashed:
  assumes "cluster_explored c (loss_state c j 1 0)" "k \<le> nodes c" "1 \<le> max_lsn c"
  shows "cluster_explored c (loss_state c j 1 k)"
  using assms(2)
proof (induction k)
  case 0
  then show ?case by (simp add: assms)
next
  case (Suc k)
  show ?case
  proof (rule explored_step [where s = "loss_state c j 1 k" and a = "Crash k"])
    show "cluster_explored c (loss_state c j 1 k)" using Suc by simp
    show "Crash k \<in> set (cluster_actions c (loss_state c j 1 k))"
      using Suc.prems by (intro cluster_actionsI(2)) auto
    show "cluster_next_state c (loss_state c j 1 k) (Crash k) = Some (loss_state c j 1 (Suc k))"
      using Suc.prems by (simp add: crash_next loss_state_def)
  qed (rule loss_state_within [OF assms(3)])
qed

lemma loss_candidate:
  assumes "nodes c < 32" "1 \<le> k" "k + cluster_majority c \<le> nodes c"
  shows "k \<in> set (possible_new_primaries c (loss_state c k 1 k))"
proof (rule possible_new_primariesI [of c "{k..<k + cluster_majority c}"])
  show "(d_lsn (loss_state c k 1 k) ! i, - int i) \<le> (d_lsn (loss_state c k 1 k) ! k, - int k)"
    if "i \<in> {k..<k + cluster_majority c}" for i
    using that assms majority_pos [of c] by (auto simp: less_eq_prod_simp)
qed (use assms majority_pos [of c] in auto)

lemma loss_reached:
  assumes "nodes c < 32" "1 \<le> k" "ack_quorum c \<le> k" "k + cluster_majority c \<le> nodes c"
    "1 \<le> max_lsn c" "1 \<le> max_term c"
  shows "cluster_explored c ((loss_state c k 1 k)\<lparr>d_primary := Some k, d_term := 1\<rparr>)"
proof (rule explored_step [where s = "loss_state c k 1 k" and a = "Failover k"])
  show "cluster_explored c (loss_state c k 1 k)"
    using assms by (intro loss_crashed [OF loss_acked]) auto
  have "need_failover (loss_state c k 1 k)"
    using assms majority_pos [of c] by (simp add: need_failover_def)
  then show "Failover k \<in> set (cluster_actions c (loss_state c k 1 k))"
    using assms loss_candidate pos_of_ge_one [of "max_term c"]
    by (intro cluster_actionsI(3)) auto
  show "cluster_within_boundary c ((loss_state c k 1 k)\<lparr>d_primary := Some k, d_term := 1\<rparr>)"
    using loss_state_within [of c k 1 k] assms by (simp add: cluster_within_boundary_def)
qed simp

lemma loss_lost:
  assumes "1 \<le> k" "k < nodes c"
  shows "\<not> no_acked_loss ((loss_state c k 1 k)\<lparr>d_primary := Some k, d_term := 1\<rparr>)"
  using assms by (simp add: no_acked_loss_def)

section \<open>A run with a failover after an acknowledgement\<close>

lemma after_ack_candidate:
  assumes "3 \<le> nodes c" "nodes c < 32"
  shows "1 \<in> set (possible_new_primaries c (loss_state c (cluster_majority c) 1 1))"
proof (rule possible_new_primariesI [of c "{1..cluster_majority c}"])
  let ?s = "loss_state c (cluster_majority c) 1 1"
  have m: "2 \<le> cluster_majority c" "cluster_majority c < nodes c"
    using assms by (simp_all add: cluster_majority_def)
  show "(d_lsn ?s ! i, - int i) \<le> (d_lsn ?s ! 1, - int 1)" if "i \<in> {1..cluster_majority c}" for i
    using that m by (auto simp: less_eq_prod_simp)
  show "{1..cluster_majority c} \<subseteq> {..<nodes c}" "1 \<in> {1..cluster_majority c}" using m by auto
  show "card {1..cluster_majority c} = cluster_majority c" "nodes c < 32" using assms by simp_all
  show "d_alive ?s ! i" if "i \<in> {1..cluster_majority c}" for i using that m by auto
qed

lemma after_ack_reached:
  assumes "3 \<le> nodes c" "nodes c < 32" "ack_quorum c \<le> cluster_majority c" "1 \<le> max_lsn c" "1 \<le> max_term c"
  shows "cluster_explored c
    ((loss_state c (cluster_majority c) 1 1)\<lparr>d_primary := Some 1, d_term := 1\<rparr>)"
proof (rule explored_step [where s = "loss_state c (cluster_majority c) 1 1" and a = "Failover 1"])
  let ?s = "loss_state c (cluster_majority c) 1 1"
  show "cluster_explored c ?s"
    using assms by (intro loss_crashed [OF loss_acked]) (auto simp: cluster_majority_def)
  have "need_failover ?s" using assms by (simp add: need_failover_def)
  then show "Failover 1 \<in> set (cluster_actions c ?s)"
    using assms after_ack_candidate pos_of_ge_one [of "max_term c"]
    by (intro cluster_actionsI(3)) auto
  show "cluster_within_boundary c (?s\<lparr>d_primary := Some 1, d_term := 1\<rparr>)"
    using loss_state_within [of c "cluster_majority c" 1 1] assms
    by (simp add: cluster_within_boundary_def)
qed simp

section \<open>Node indices stay in range\<close>

definition action_in_range :: "cluster \<Rightarrow> daction \<Rightarrow> bool" where
  "action_in_range c a = (case a of Replicate i \<Rightarrow> i < nodes c | Crash i \<Rightarrow> i < nodes c
     | Failover w \<Rightarrow> w < nodes c | Write \<Rightarrow> True | Ack \<Rightarrow> True)"

lemma candidate_in_range: "w \<in> set (possible_new_primaries c s) \<Longrightarrow> w < nodes c"
  by (elim possible_new_primariesD) auto

lemma cluster_actions_range: "a \<in> set (cluster_actions c s) \<Longrightarrow> action_in_range c a"
  by (erule cluster_actionsD)
    (auto simp: action_in_range_def dest!: primary_actionsD candidate_in_range)

lemma dstate_wf_step:
  "dstate_wf c s \<Longrightarrow> a \<in> set (cluster_actions c s) \<Longrightarrow> cluster_next_state c s a = Some t \<Longrightarrow>
     dstate_wf c t"
  by (cases a) (auto simp: dstate_wf_def action_in_range_def dest!: cluster_actions_range
      split: option.splits if_splits)

lemma dstate_wf_init: "0 < nodes c \<Longrightarrow> s \<in> set (cluster_init_states c) \<Longrightarrow> dstate_wf c s"
  by (simp add: cluster_init_states_def dstate_wf_def)

interpretation ranged: safe_model "cluster_init_states c" "cluster_actions c"
    "cluster_next_state c" "cluster_within_boundary c" "\<lambda>s. 0 < nodes c \<longrightarrow> dstate_wf c s"
  for c
  by unfold_locales (auto intro: dstate_wf_init dstate_wf_step)

section \<open>Overflowing masks\<close>

text \<open>
  With a multiple of 32 nodes the range of masks is empty in the release build: no failover is
  ever enabled, and the first node stays the primary.
\<close>

lemma no_candidate_overflow: "nodes c mod 32 = 0 \<Longrightarrow> possible_new_primaries c s = []"
  by (simp add: possible_new_primaries_def Let_def masks_overflow map_filter_def)

definition first_primary :: "cluster \<Rightarrow> dstate \<Rightarrow> bool" where
  "first_primary c s \<longleftrightarrow> length (d_lsn s) = nodes c \<and> d_primary s = Some 0 \<and> d_term s = 0 \<and>
     d_acked s \<le> d_lsn s ! 0"

lemma first_primary_step:
  assumes "first_primary c s" "0 < nodes c" "nodes c mod 32 = 0"
    and "a \<in> set (cluster_actions c s)" "cluster_next_state c s a = Some t"
  shows "first_primary c t"
  using assms(4)
proof (cases rule: cluster_actionsD)
  case (primary p)
  then have p: "p = 0" using assms(1) by (simp add: first_primary_def)
  show ?thesis
    using primary_actionsD [OF primary(2)] assms(1,2,5) word_inc [of "d_lsn s ! 0" "max_lsn c"] unfolding p
    by (auto simp: first_primary_def nth_list_update intro: order.trans less_imp_le split: if_splits)
next
  case (crash i)
  then show ?thesis using assms(1,5) by (auto simp: first_primary_def)
next
  case (failover w)
  then show ?thesis using no_candidate_overflow [OF assms(3)] by simp
qed

lemma first_primary_init: "0 < nodes c \<Longrightarrow> s \<in> set (cluster_init_states c) \<Longrightarrow> first_primary c s"
  by (simp add: cluster_init_states_def first_primary_def)

interpretation overflowed: safe_model "cluster_init_states c" "cluster_actions c"
    "cluster_next_state c" "cluster_within_boundary c"
    "\<lambda>s. 0 < nodes c \<and> nodes c mod 32 = 0 \<longrightarrow> first_primary c s" for c
  by unfold_locales (auto intro: first_primary_init first_primary_step)

section \<open>Properties\<close>

text \<open>
  With an acknowledgement quorum of a majority, in a cluster of any size, no reachable
  state has a primary that misses an acknowledged position: the durability check of the
  repository's model, for every bound and not only for three and five nodes.
\<close>

lemma sync_quorum_loses_no_acked_transaction:
  assumes "cluster_explored c s" "0 < nodes c" "cluster_majority c \<le> ack_quorum c"
  shows "no_acked_loss s"
proof -
  have "quorums_meet c" using assms(2,3) by (simp add: quorums_meet_def cluster_majority_def)
  with durable.explored_inv [OF assms(1)] have "acked_inv c s" by simp
  then show ?thesis by (auto simp: no_acked_loss_def acked_inv_def ack_set_def split: option.split)
qed

abbreviation cluster3 :: cluster where
  "cluster3 \<equiv> \<lparr> nodes = 3, ack_quorum = 2, max_lsn = 3, max_term = 3 \<rparr>"

lemma cluster3_majority: "cluster_majority cluster3 = 2"
  by (simp add: cluster_majority_def)

lemma sync_quorum_loses_no_acked_transaction_witness:
  "no_acked_loss ((loss_state cluster3 2 1 1)\<lparr>d_primary := Some 1, d_term := 1\<rparr>)"
proof (rule sync_quorum_loses_no_acked_transaction [where c = cluster3])
  show "cluster_explored cluster3 ((loss_state cluster3 2 1 1)\<lparr>d_primary := Some 1, d_term := 1\<rparr>)"
    using after_ack_reached [of cluster3] by (simp add: cluster3_majority)
qed (simp_all add: cluster3_majority)

text \<open>A smaller quorum loses an acknowledged position: the negative control.\<close>

lemma small_quorum_loses:
  assumes "\<not> nodes c < max 1 (ack_quorum c) + cluster_majority c" "0 < nodes c" "nodes c < 32" "1 \<le> max_lsn c" "1 \<le> max_term c"
  shows "\<exists>s. cluster_explored c s \<and> \<not> no_acked_loss s"
proof -
  let ?k = "max 1 (ack_quorum c)"
  have "?k < nodes c" using assms(1) majority_pos [of c] by linarith
  then show ?thesis
    using loss_reached [of c ?k] loss_lost [of ?k c] assms by auto
qed

text \<open>
  C3: The acknowledgement quorum is exactly as large as it has to be. In a cluster of 1 to 31
  nodes (the range in which the masks of the code do not overflow), with bounds that allow at
  least one write and one failover, no acknowledged position is ever lost if and only if the
  quorum, counted as at least one because the primary always confirms its own position, and a
  majority together exceed the number of nodes. One less loses data, as the repository's
  negative control shows for three nodes.
\<close>

theorem no_acked_loss_threshold:
  assumes "0 < nodes c" "nodes c < 32" "1 \<le> max_lsn c" "1 \<le> max_term c"
  shows "(\<forall>s. cluster_explored c s \<longrightarrow> no_acked_loss s) \<longleftrightarrow>
     nodes c < max 1 (ack_quorum c) + cluster_majority c"
proof
  show "\<forall>s. cluster_explored c s \<longrightarrow> no_acked_loss s \<Longrightarrow> nodes c < max 1 (ack_quorum c) + cluster_majority c"
    using small_quorum_loses [OF _ assms] by blast
next
  assume "nodes c < max 1 (ack_quorum c) + cluster_majority c"
  with assms(1) have "quorums_meet c" by (simp add: quorums_meet_def)
  then show "\<forall>s. cluster_explored c s \<longrightarrow> no_acked_loss s"
    using durable.explored_inv
    by (auto simp: no_acked_loss_def acked_inv_def ack_set_def split: option.split)
qed

theorem no_acked_loss_threshold_witness:
  "(\<forall>s. cluster_explored cluster3 s \<longrightarrow> no_acked_loss s) \<longleftrightarrow> (3::nat) < max 1 2 + 2"
  using no_acked_loss_threshold [of cluster3] by (simp add: cluster_majority_def)

text \<open>
  The durability check is not vacuous: with at least three nodes a state after an
  acknowledgement and a failover is reachable, the \<open>sometimes\<close> property of the model.
\<close>

lemma failover_after_ack_reachable:
  assumes "3 \<le> nodes c" "nodes c < 32" "ack_quorum c \<le> cluster_majority c" "1 \<le> max_lsn c" "1 \<le> max_term c"
  shows "\<exists>s. cluster_explored c s \<and> failover_after_ack s"
  using after_ack_reached [OF assms] by (intro exI conjI) (auto simp: failover_after_ack_def)

lemma failover_after_ack_reachable_witness:
  "\<exists>s. cluster_explored cluster3 s \<and> failover_after_ack s"
  by (rule failover_after_ack_reachable) (simp_all add: cluster_majority_def)

text \<open>
  In every reachable state of a nonempty cluster the node vectors have one entry per
  node, the primary is a node, and every enabled action names a node: none of the model's
  vector accesses is out of range.
\<close>

lemma cluster_accesses_in_range:
  assumes "cluster_explored c s" "0 < nodes c" "a \<in> set (cluster_actions c s)"
  shows "dstate_wf c s \<and> action_in_range c a"
  using ranged.explored_inv [OF assms(1)] assms(2) cluster_actions_range [OF assms(3)] by blast

lemma cluster_accesses_in_range_witness:
  "dstate_wf cluster3 (loss_state cluster3 2 1 0) \<and> action_in_range cluster3 (Crash 2)"
  by (rule cluster_accesses_in_range)
    (use loss_acked [of 2 cluster3] in \<open>simp_all add: cluster_actionsI\<close>)

end
