(* ===== verification/Leadership.thy ===== *)
theory Leadership
  imports Quorum
begin

text \<open>
  \<open>packages/consensus-model/src/leadership.rs\<close>: the split-brain model. Nodes carry a
  current term and a writable flag; electing a majority raises its members to a fresh
  term, and a commit needs (with fencing) a live majority still at the leader's term.
\<close>

section \<open>The model\<close>

record leadership =
  l_nodes :: nat
  l_max_term :: u64
  fencing :: bool

record lstate =
  cur_term :: "u64 list"
  writable :: "bool list"
  l_alive :: "bool list"
  max_committed_term :: u64
  committed_leader :: "nat option"
  split_brain :: bool

datatype laction =
    Elect (winner: nat) (voter_mask: u32)
  | Commit nat
  | LCrash nat
  | LRecover nat

definition leadership_majority :: "leadership \<Rightarrow> nat" where
  "leadership_majority m = l_nodes m div 2 + 1"

definition leadership_init_states :: "leadership \<Rightarrow> lstate list" where
  "leadership_init_states m =
     [\<lparr> cur_term = replicate (l_nodes m) 1,
        writable = (replicate (l_nodes m) False)[0 := True],
        l_alive = replicate (l_nodes m) True,
        max_committed_term = 0, committed_leader = None, split_brain = False \<rparr>]"

definition max_cur_term :: "lstate \<Rightarrow> u64" where
  "max_cur_term s = Max (set (cur_term s))"

definition elections :: "leadership \<Rightarrow> lstate \<Rightarrow> laction list" where
  "elections m s =
     concat (map (\<lambda>msk. let members = mask_members (l_nodes m) msk
         in if length members \<noteq> leadership_majority m \<or> list_ex (\<lambda>i. \<not> l_alive s ! i) members
            then [] else map (\<lambda>w. Elect w msk) members)
       (masks (l_nodes m)))"

definition leadership_actions :: "leadership \<Rightarrow> lstate \<Rightarrow> laction list" where
  "leadership_actions m s =
     (if max_cur_term s < l_max_term m then elections m s else [])
     @ map Commit (filter (\<lambda>w. l_alive s ! w \<and> writable s ! w) [0..<l_nodes m])
     @ map (\<lambda>i. if l_alive s ! i then LCrash i else LRecover i) [0..<l_nodes m]"

definition elect :: "leadership \<Rightarrow> lstate \<Rightarrow> nat \<Rightarrow> u32 \<Rightarrow> lstate" where
  "elect m s w msk =
     (let new_term = max_cur_term s + 1
      in s\<lparr>cur_term := map (\<lambda>i. if i < l_nodes m \<and> mask_bit msk i then new_term
                             else cur_term s ! i) [0..<length (cur_term s)],
           writable := map (\<lambda>i. if i < l_nodes m \<and> mask_bit msk i then i = w
                             else writable s ! i) [0..<length (writable s)]\<rparr>)"

definition quorum_at_term :: "leadership \<Rightarrow> lstate \<Rightarrow> u64 \<Rightarrow> nat" where
  "quorum_at_term m s t = length (filter (\<lambda>i. l_alive s ! i \<and> cur_term s ! i = t) [0..<l_nodes m])"

definition commit :: "lstate \<Rightarrow> nat \<Rightarrow> lstate" where
  "commit s w =
     (let t = cur_term s ! w
      in if t < max_committed_term s then s\<lparr>split_brain := True\<rparr>
         else if t = max_committed_term s then
           (case committed_leader s of
              Some prev \<Rightarrow> if prev \<noteq> w then s\<lparr>split_brain := True, committed_leader := Some w\<rparr>
                           else s\<lparr>committed_leader := Some w\<rparr>
            | None \<Rightarrow> s\<lparr>committed_leader := Some w\<rparr>)
         else s\<lparr>max_committed_term := t, committed_leader := Some w\<rparr>)"

fun leadership_next_state :: "leadership \<Rightarrow> lstate \<Rightarrow> laction \<Rightarrow> lstate option" where
  "leadership_next_state m s (Elect w msk) = Some (elect m s w msk)"
| "leadership_next_state m s (Commit w) =
     (let allowed = (if fencing m
                     then quorum_at_term m s (cur_term s ! w) \<ge> leadership_majority m else True)
      in if \<not> allowed then None else Some (commit s w))"
| "leadership_next_state m s (LCrash i) = Some (s\<lparr>l_alive := (l_alive s)[i := False]\<rparr>)"
| "leadership_next_state m s (LRecover i) = Some (s\<lparr>l_alive := (l_alive s)[i := True]\<rparr>)"

definition leadership_within_boundary :: "leadership \<Rightarrow> lstate \<Rightarrow> bool" where
  "leadership_within_boundary m s \<longleftrightarrow> list_all (\<lambda>t. t \<le> l_max_term m) (cur_term s)"

definition no_split_brain :: "lstate \<Rightarrow> bool" where
  "no_split_brain s \<longleftrightarrow> \<not> split_brain s"

definition stale_writable_leader_present :: "lstate \<Rightarrow> bool" where
  "stale_writable_leader_present s =
     (let mx = max_cur_term s
      in list_ex (\<lambda>i. l_alive s ! i \<and> writable s ! i \<and> cur_term s ! i < mx)
           [0..<length (cur_term s)])"

abbreviation leadership_explored :: "leadership \<Rightarrow> lstate \<Rightarrow> bool" where
  "leadership_explored m \<equiv> explored (leadership_init_states m) (leadership_actions m)
     (leadership_next_state m) (leadership_within_boundary m)"


section \<open>One writable leader per term\<close>

text \<open>
  Every node of a term's electorate took that term from one election, so two writable nodes
  never share a term. This holds with and without fencing.
\<close>

definition one_leader_per_term :: "leadership \<Rightarrow> lstate \<Rightarrow> bool" where
  "one_leader_per_term m s \<longleftrightarrow>
     (\<forall>i < l_nodes m. \<forall>j < l_nodes m. writable s ! i \<longrightarrow> writable s ! j \<longrightarrow>
        cur_term s ! i = cur_term s ! j \<longrightarrow> i = j)"

definition lstate_wf :: "leadership \<Rightarrow> lstate \<Rightarrow> bool" where
  "lstate_wf m s \<longleftrightarrow> 0 < l_nodes m \<and> length (cur_term s) = l_nodes m \<and>
     length (writable s) = l_nodes m \<and> length (l_alive s) = l_nodes m \<and>
     (\<forall>i < l_nodes m. 1 \<le> cur_term s ! i)"

definition leaders_inv :: "leadership \<Rightarrow> lstate \<Rightarrow> bool" where
  "leaders_inv m s \<longleftrightarrow> lstate_wf m s \<and> one_leader_per_term m s"

lemma cur_term_le_max: "lstate_wf m s \<Longrightarrow> i < l_nodes m \<Longrightarrow> cur_term s ! i \<le> max_cur_term s"
  by (auto simp: max_cur_term_def lstate_wf_def)

lemma leadership_actionsD:
  assumes "a \<in> set (leadership_actions m s)"
  obtains (elect) w msk where "a = Elect w msk" "max_cur_term s < l_max_term m"
      "w < l_nodes m" "mask_bit msk w"
  | (commit) w where "a = Commit w" "w < l_nodes m" "writable s ! w"
  | (alive) i where "i < l_nodes m" "a = LCrash i \<or> a = LRecover i"
  using assms
  by (auto simp: leadership_actions_def elections_def Let_def set_mask_members
      split: if_splits intro: elect commit alive)

lemma elect_nth:
  assumes "lstate_wf m s" "i < l_nodes m"
  shows "cur_term (elect m s w msk) ! i =
      (if mask_bit msk i then max_cur_term s + 1 else cur_term s ! i)"
    and "writable (elect m s w msk) ! i = (if mask_bit msk i then i = w else writable s ! i)"
  using assms by (simp_all add: elect_def Let_def lstate_wf_def)

lemma elect_frame [simp]:
  "length (cur_term (elect m s w msk)) = length (cur_term s)"
  "length (writable (elect m s w msk)) = length (writable s)"
  "l_alive (elect m s w msk) = l_alive s"
  "max_committed_term (elect m s w msk) = max_committed_term s"
  "committed_leader (elect m s w msk) = committed_leader s"
  "split_brain (elect m s w msk) = split_brain s"
  by (simp_all add: elect_def Let_def)

lemma commit_frame [simp]:
  "cur_term (commit s w) = cur_term s" "writable (commit s w) = writable s"
  "l_alive (commit s w) = l_alive s"
  by (auto simp: commit_def Let_def split: option.split)

lemma elect_grows:
  assumes "lstate_wf m s" "max_cur_term s < l_max_term m" "i < l_nodes m"
  shows "cur_term s ! i \<le> cur_term (elect m s w msk) ! i"
  using cur_term_le_max [OF assms(1,3)] word_inc [OF assms(2)]
  by (auto simp: elect_nth assms intro: order.trans less_imp_le)

lemma leaders_inv_elect:
  assumes inv: "leaders_inv m s" and mx: "max_cur_term s < l_max_term m"
  shows "leaders_inv m (elect m s w msk)"
proof -
  have wf: "lstate_wf m s" using inv by (simp add: leaders_inv_def)
  have new: "cur_term s ! i \<noteq> max_cur_term s + 1" if "i < l_nodes m" for i
    using cur_term_le_max [OF wf that] word_inc [OF mx] by auto
  have "one_leader_per_term m (elect m s w msk)"
    using inv new new [symmetric] unfolding one_leader_per_term_def leaders_inv_def
    by (auto simp: elect_nth [OF wf])
  moreover have "lstate_wf m (elect m s w msk)"
    using wf elect_grows [OF wf mx]
    by (auto simp: lstate_wf_def intro: order.trans)
  ultimately show ?thesis by (simp add: leaders_inv_def)
qed

lemma leaders_inv_step:
  assumes inv: "leaders_inv m s" and a: "a \<in> set (leadership_actions m s)"
    and st: "leadership_next_state m s a = Some t"
  shows "leaders_inv m t"
  using a
proof (cases rule: leadership_actionsD)
  case (elect w msk)
  then show ?thesis using leaders_inv_elect [OF inv] st by auto
next
  case (commit w)
  then show ?thesis using inv st
    by (auto simp: leaders_inv_def lstate_wf_def one_leader_per_term_def Let_def split: if_splits)
next
  case (alive i)
  then show ?thesis using inv st
    by (auto simp: leaders_inv_def lstate_wf_def one_leader_per_term_def)
qed

lemma leaders_inv_init:
  "0 < l_nodes m \<Longrightarrow> s \<in> set (leadership_init_states m) \<Longrightarrow> leaders_inv m s"
  by (auto simp: leadership_init_states_def leaders_inv_def lstate_wf_def one_leader_per_term_def
      nth_list_update split: if_splits)

interpretation leaders: safe_model "leadership_init_states m" "leadership_actions m"
    "leadership_next_state m" "leadership_within_boundary m"
    "\<lambda>s. 0 < l_nodes m \<longrightarrow> leaders_inv m s" for m
  by unfold_locales (auto intro: leaders_inv_init leaders_inv_step)

section \<open>Fenced commits\<close>

definition at_least_term :: "leadership \<Rightarrow> lstate \<Rightarrow> u64 \<Rightarrow> nat set" where
  "at_least_term m s t = {i. i < l_nodes m \<and> t \<le> cur_term s ! i}"

text \<open>
  After a commit at a term, a majority stays at or above that term and its leader is the only
  writable node of the term.
\<close>

definition fenced_inv :: "leadership \<Rightarrow> lstate \<Rightarrow> bool" where
  "fenced_inv m s \<longleftrightarrow> leaders_inv m s \<and> no_split_brain s \<and>
     (max_committed_term s = 0 \<or>
        leadership_majority m \<le> card (at_least_term m s (max_committed_term s))) \<and>
     (\<forall>i < l_nodes m. writable s ! i \<longrightarrow> cur_term s ! i = max_committed_term s \<longrightarrow>
        committed_leader s = Some i)"

lemma finite_at_least [simp]: "finite (at_least_term m s t)"
  by (simp add: at_least_term_def)

lemma at_least_mono:
  "(\<And>i. i < l_nodes m \<Longrightarrow> cur_term s ! i \<le> cur_term t ! i) \<Longrightarrow>
     card (at_least_term m s k) \<le> card (at_least_term m t k)"
  by (intro card_mono) (force simp: at_least_term_def)+

lemma majority_not_stale:
  assumes "leadership_majority m \<le> card (at_least_term m s t)"
    "leadership_majority m \<le> quorum_at_term m s k"
  shows "t \<le> k"
proof (rule ccontr)
  assume "\<not> t \<le> k"
  let ?B = "{i. i < l_nodes m \<and> l_alive s ! i \<and> cur_term s ! i = k}"
  have "l_nodes m < leadership_majority m + card ?B"
    using assms(2) by (simp add: quorum_at_term_def length_filter_upt leadership_majority_def)
  then have "\<exists>x. x \<in> at_least_term m s t \<and> x \<in> ?B"
    by (intro counted.common [OF assms(1)]) (auto simp: at_least_term_def)
  then show False using \<open>\<not> t \<le> k\<close> by (auto simp: at_least_term_def)
qed

lemma fenced_inv_elect:
  assumes inv: "fenced_inv m s" and mx: "max_cur_term s < l_max_term m"
  shows "fenced_inv m (elect m s w msk)"
proof -
  have li: "leaders_inv m s" and wf: "lstate_wf m s"
    using inv by (auto simp: fenced_inv_def leaders_inv_def)
  have "max_committed_term s \<le> max_cur_term s"
  proof (cases "max_committed_term s = 0")
    case False
    then have "0 < card (at_least_term m s (max_committed_term s))"
      using inv by (auto simp: fenced_inv_def leadership_majority_def)
    then obtain i where "i \<in> at_least_term m s (max_committed_term s)"
      by (metis card_gt_0_iff all_not_in_conv)
    then show ?thesis
      using cur_term_le_max [OF wf] by (auto simp: at_least_term_def intro: order.trans)
  qed simp
  then have new: "max_cur_term s + 1 \<noteq> max_committed_term s" using word_inc [OF mx] by auto
  have grow: "card (at_least_term m s k) \<le> card (at_least_term m (elect m s w msk) k)" for k
    by (intro at_least_mono elect_grows [OF wf mx])
  have "max_committed_term s = 0 \<or>
      leadership_majority m \<le> card (at_least_term m (elect m s w msk) (max_committed_term s))"
    using inv grow [of "max_committed_term s"] by (auto simp: fenced_inv_def)
  moreover have "committed_leader s = Some i"
    if "i < l_nodes m" "writable (elect m s w msk) ! i"
      "cur_term (elect m s w msk) ! i = max_committed_term s" for i
    using that inv new by (auto simp: fenced_inv_def elect_nth [OF wf] split: if_splits)
  ultimately show ?thesis
    using inv leaders_inv_elect [OF li mx] by (simp add: fenced_inv_def no_split_brain_def)
qed

lemma commit_committed:
  assumes "fenced_inv m s" "w < l_nodes m" "writable s ! w"
    "leadership_majority m \<le> quorum_at_term m s (cur_term s ! w)"
  shows "commit s w = (if cur_term s ! w = max_committed_term s
           then s\<lparr>committed_leader := Some w\<rparr>
           else s\<lparr>max_committed_term := cur_term s ! w, committed_leader := Some w\<rparr>)"
    and "max_committed_term s \<le> cur_term s ! w"
proof -
  show le: "max_committed_term s \<le> cur_term s ! w"
    using assms majority_not_stale [OF _ assms(4)] by (auto simp: fenced_inv_def)
  show "commit s w = (if cur_term s ! w = max_committed_term s
           then s\<lparr>committed_leader := Some w\<rparr>
           else s\<lparr>max_committed_term := cur_term s ! w, committed_leader := Some w\<rparr>)"
    using assms le by (auto simp: commit_def Let_def fenced_inv_def split: option.split)
qed

lemma fenced_inv_commit:
  assumes inv: "fenced_inv m s" and w: "w < l_nodes m" "writable s ! w"
    and q: "leadership_majority m \<le> quorum_at_term m s (cur_term s ! w)"
  shows "fenced_inv m (commit s w)"
proof -
  note eq = commit_committed [OF inv w q]
  have "quorum_at_term m s (cur_term s ! w) \<le> card (at_least_term m s (cur_term s ! w))"
    by (auto simp: quorum_at_term_def length_filter_upt at_least_term_def intro!: card_mono)
  then have maj: "leadership_majority m \<le> card (at_least_term m s (cur_term s ! w))"
    using q by simp
  have one: "i = w" if "i < l_nodes m" "writable s ! i" "cur_term s ! i = cur_term s ! w" for i
    using inv that w by (auto simp: fenced_inv_def leaders_inv_def one_leader_per_term_def)
  show ?thesis
    using inv maj one
    by (auto simp: eq fenced_inv_def leaders_inv_def lstate_wf_def one_leader_per_term_def
        no_split_brain_def at_least_term_def)
qed

lemma fenced_inv_step:
  assumes inv: "fenced_inv m s" and f: "fencing m" and a: "a \<in> set (leadership_actions m s)"
    and st: "leadership_next_state m s a = Some t"
  shows "fenced_inv m t"
  using a
proof (cases rule: leadership_actionsD)
  case (elect w msk)
  then show ?thesis using fenced_inv_elect [OF inv] st by auto
next
  case (commit w)
  then show ?thesis using fenced_inv_commit [OF inv] st f by (auto simp: Let_def split: if_splits)
next
  case (alive i)
  then show ?thesis using inv st
    by (auto simp: fenced_inv_def leaders_inv_def lstate_wf_def one_leader_per_term_def
        no_split_brain_def at_least_term_def)
qed

lemma fenced_inv_init:
  assumes "0 < l_nodes m" "s \<in> set (leadership_init_states m)"
  shows "fenced_inv m s"
  using leaders_inv_init [OF assms] assms
  by (auto simp: fenced_inv_def leadership_init_states_def no_split_brain_def)

interpretation fenced: safe_model "leadership_init_states m" "leadership_actions m"
    "leadership_next_state m" "leadership_within_boundary m"
    "\<lambda>s. 0 < l_nodes m \<and> fencing m \<longrightarrow> fenced_inv m s" for m
  by unfold_locales (auto intro: fenced_inv_init fenced_inv_step)


section \<open>A stale leader beside a new one\<close>

definition leadership_start :: "leadership \<Rightarrow> lstate" where
  "leadership_start m = hd (leadership_init_states m)"

lemma leadership_start_simps [simp]:
  "cur_term (leadership_start m) = replicate (l_nodes m) 1"
  "writable (leadership_start m) = (replicate (l_nodes m) False)[0 := True]"
  "l_alive (leadership_start m) = replicate (l_nodes m) True"
  "max_committed_term (leadership_start m) = 0" "committed_leader (leadership_start m) = None"
  "\<not> split_brain (leadership_start m)"
  by (simp_all add: leadership_start_def leadership_init_states_def)

lemma leadership_start_max: "0 < l_nodes m \<Longrightarrow> max_cur_term (leadership_start m) = 1"
  by (simp add: max_cur_term_def)

lemma one_plus_one_le: "(2 :: u64) \<le> t \<Longrightarrow> 1 < t" "(2 :: u64) \<le> t \<Longrightarrow> 1 \<le> t"
  by (simp_all add: word_less_nat_alt word_le_nat_alt)

lemma start_explored:
  assumes "0 < l_nodes m" "2 \<le> l_max_term m"
  shows "leadership_explored m (leadership_start m)"
  using assms one_plus_one_le
  by (intro explored_init)
    (auto simp: leadership_start_def leadership_init_states_def leadership_within_boundary_def
      list_all_iff)

text \<open>Nodes 1 to the majority elect node 1; node 0 stays writable at term 1.\<close>

definition electorate_of :: "leadership \<Rightarrow> u32 \<Rightarrow> bool" where
  "electorate_of m msk \<longleftrightarrow> l_nodes m < 32 \<and> unat msk < 2 ^ l_nodes m \<and>
     (\<forall>i < l_nodes m. mask_bit msk i \<longleftrightarrow> i \<in> {1..leadership_majority m})"

lemma electorate_exists: "3 \<le> l_nodes m \<Longrightarrow> l_nodes m < 32 \<Longrightarrow> \<exists>msk. electorate_of m msk"
proof -
  assume n: "3 \<le> l_nodes m" "l_nodes m < 32"
  then have "{1..leadership_majority m} \<subseteq> {..<l_nodes m}" by (auto simp: leadership_majority_def)
  from mask_exists [OF this n(2)] n(2) show ?thesis by (auto simp: electorate_of_def)
qed

lemma electorate_bit:
  "electorate_of m msk \<Longrightarrow> i < l_nodes m \<Longrightarrow> mask_bit msk i \<longleftrightarrow> 1 \<le> i \<and> i \<le> leadership_majority m"
  by (auto simp: electorate_of_def)

lemma elected_explored:
  assumes n: "3 \<le> l_nodes m" and t: "2 \<le> l_max_term m" and e: "electorate_of m msk"
  shows "leadership_explored m (elect m (leadership_start m) 1 msk)"
proof (rule explored_step [where s = "leadership_start m" and a = "Elect 1 msk"])
  let ?s = "leadership_start m"
  have m1: "1 \<le> leadership_majority m" "leadership_majority m < l_nodes m"
    using n by (simp_all add: leadership_majority_def)
  note mb = electorate_bit [OF e]
  have set: "set (mask_members (l_nodes m) msk) = {1..leadership_majority m}"
    using m1 by (auto simp: set_mask_members mb)
  have len: "length (mask_members (l_nodes m) msk) = leadership_majority m"
    using distinct_card [of "mask_members (l_nodes m) msk"] set by simp
  have "mask_bit msk 1" using m1 mb by auto
  then have "msk \<noteq> 0" using mask_of_members [of 1 "l_nodes m"] n by auto
  then have "msk \<in> set (masks (l_nodes m))" using e by (auto simp: electorate_of_def masks_iff)
  moreover have "\<forall>i \<in> set (mask_members (l_nodes m) msk). l_alive ?s ! i"
    using m1 by (auto simp: set)
  ultimately have "Elect 1 msk \<in> set (elections m ?s)"
    using m1 len set by (auto simp: elections_def Let_def list_ex_iff intro!: bexI [of _ msk])
  then show "Elect 1 msk \<in> set (leadership_actions m ?s)"
    using n t one_plus_one_le by (auto simp: leadership_actions_def leadership_start_max)
  show "leadership_within_boundary m (elect m ?s 1 msk)"
    using n t one_plus_one_le
    by (auto simp: leadership_within_boundary_def list_all_iff elect_def Let_def
        leadership_start_max)
qed (use n t start_explored in auto)

lemma elected_facts:
  assumes n: "3 \<le> l_nodes m" and e: "electorate_of m msk"
  defines "s \<equiv> elect m (leadership_start m) 1 msk"
  shows "cur_term s ! 0 = 1" "writable s ! 0" "cur_term s ! 1 = 2" "writable s ! 1"
    "l_alive s = replicate (l_nodes m) True" "length (cur_term s) = l_nodes m"
    "max_committed_term s = 0" "committed_leader s = None"
    "quorum_at_term m s 2 = leadership_majority m"
proof -
  have start: "lstate_wf m (leadership_start m)" using n by (auto simp: lstate_wf_def)
  note nth = elect_nth [OF start, of _ 1 msk, folded s_def]
  note mb = electorate_bit [OF e]
  have m1: "1 \<le> leadership_majority m" "leadership_majority m < l_nodes m"
    using n by (simp_all add: leadership_majority_def)
  show "cur_term s ! 0 = 1" "writable s ! 0" "cur_term s ! 1 = 2" "writable s ! 1"
    using n m1 nth [of 0] nth [of 1] by (auto simp: mb leadership_start_max)
  show "l_alive s = replicate (l_nodes m) True" "length (cur_term s) = l_nodes m"
    "max_committed_term s = 0" "committed_leader s = None" by (simp_all add: s_def)
  have "{i. i < l_nodes m \<and> l_alive s ! i \<and> cur_term s ! i = 2} = {1..leadership_majority m}"
    using n m1 nth by (auto simp: mb leadership_start_max s_def split: if_splits)
  then show "quorum_at_term m s 2 = leadership_majority m"
    by (simp add: quorum_at_term_def length_filter_upt)
qed


lemma commit_explored:
  assumes "leadership_explored m s" "w < l_nodes m" "l_alive s ! w" "writable s ! w"
    "\<not> fencing m \<or> leadership_majority m \<le> quorum_at_term m s (cur_term s ! w)"
  shows "leadership_explored m (commit s w)"
proof (rule explored_step [OF assms(1), where a = "Commit w"])
  show "Commit w \<in> set (leadership_actions m s)"
    using assms(2-4) by (simp add: leadership_actions_def)
  show "leadership_next_state m s (Commit w) = Some (commit s w)"
    using assms(5) by (auto simp: Let_def)
  have "leadership_within_boundary m s" using assms(1) by (cases rule: explored.cases) auto
  then show "leadership_within_boundary m (commit s w)"
    by (simp add: leadership_within_boundary_def)
qed

lemma committed_explored:
  assumes n: "3 \<le> l_nodes m" and t: "2 \<le> l_max_term m" and e: "electorate_of m msk"
  shows "leadership_explored m (commit (elect m (leadership_start m) 1 msk) 1)"
  using n elected_facts [OF n e] by (intro commit_explored elected_explored [OF n t e]) auto

lemma stale_commit_explored:
  assumes n: "3 \<le> l_nodes m" and t: "2 \<le> l_max_term m" and e: "electorate_of m msk"
    and f: "\<not> fencing m"
  shows "leadership_explored m (commit (commit (elect m (leadership_start m) 1 msk) 1) 0)"
  using n f elected_facts [OF n e] by (intro commit_explored committed_explored [OF n t e]) auto

section \<open>Properties\<close>

lemma fenced_safe: "leadership_explored m s \<Longrightarrow> 0 < l_nodes m \<Longrightarrow> fencing m \<Longrightarrow> no_split_brain s"
  using fenced.explored_inv by (auto simp: fenced_inv_def)

text \<open>
  C4: With fencing, in a cluster of any size and for any bound on terms, no reachable state
  has seen a split-brain commit: neither a commit below the highest committed term nor two
  leaders committing in one term.
\<close>

theorem fencing_prevents_split_brain:
  assumes "leadership_explored m s" "0 < l_nodes m" "fencing m"
  shows "no_split_brain s"
  using fenced_safe [OF assms] .

abbreviation leadership3 :: "bool \<Rightarrow> leadership" where
  "leadership3 f \<equiv> \<lparr> l_nodes = 3, l_max_term = 4, fencing = f \<rparr>"

lemma electorate3: "electorate_of (leadership3 f) 6"
proof -
  have "mask_bit 6 i \<longleftrightarrow> i \<in> {1..2}" if "i < 3" for i
  proof -
    from that consider "i = 0" | "i = 1" | "i = 2" by arith
    then show ?thesis by cases (simp_all add: mask_bit_def shr_u32_def)
  qed
  moreover have "leadership_majority (leadership3 f) = 2" by (simp add: leadership_majority_def)
  ultimately show ?thesis by (simp only: electorate_of_def) simp
qed

lemmas elected3_explored = elected_explored [OF _ _ electorate3]

theorem fencing_prevents_split_brain_witness:
  "no_split_brain (elect (leadership3 True) (leadership_start (leadership3 True)) 1 6)"
  by (rule fencing_prevents_split_brain [OF elected3_explored]) simp_all

text \<open>
  A resurrected leader of an older term cannot commit: in every reachable state of the
  fenced model, a commit by a node below the highest committed term is refused.
\<close>

lemma stale_leader_commit_refused:
  assumes "leadership_explored m s" "0 < l_nodes m" "fencing m"
    "cur_term s ! w < max_committed_term s"
  shows "leadership_next_state m s (Commit w) = None"
proof -
  have "fenced_inv m s" using fenced.explored_inv [OF assms(1)] assms(2,3) by simp
  then have "leadership_majority m \<le> card (at_least_term m s (max_committed_term s))"
    using assms(4) by (auto simp: fenced_inv_def)
  then have "\<not> leadership_majority m \<le> quorum_at_term m s (cur_term s ! w)"
    using majority_not_stale assms(4) by (meson not_le)
  then show ?thesis using assms(3) by (simp add: Let_def)
qed

lemma stale_leader_commit_refused_witness:
  "leadership_next_state (leadership3 True)
     (commit (elect (leadership3 True) (leadership_start (leadership3 True)) 1 6) 1) (Commit 0) = None"
  by (rule stale_leader_commit_refused [OF committed_explored [OF _ _ electorate3]])
    (use elected_facts [OF _ electorate3, of True] in \<open>simp_all add: commit_def Let_def\<close>)

text \<open>
  C21: In every reachable state, with or without fencing, at most one node is writable in
  each term.
\<close>

theorem at_most_one_leader_per_term:
  assumes "leadership_explored m s" "0 < l_nodes m" "i < l_nodes m" "j < l_nodes m"
    "writable s ! i" "writable s ! j" "cur_term s ! i = cur_term s ! j"
  shows "i = j"
  using leaders.explored_inv [OF assms(1)] assms(2-)
  by (auto simp: leaders_inv_def one_leader_per_term_def)

theorem at_most_one_leader_per_term_witness:
  "writable (leadership_start (leadership3 False)) ! 0 \<and> (0::nat) = 0"
proof
  show "writable (leadership_start (leadership3 False)) ! 0" by simp
  show "(0::nat) = 0"
  by (rule at_most_one_leader_per_term [where m = "leadership3 False" and
        s = "leadership_start (leadership3 False)"])
    (simp_all add: start_explored)
qed

text \<open>
  Without the check that a majority is still at the leader's term, split brain is
  reachable in every cluster of at least three nodes: the negative control of the model.
\<close>

lemma without_fencing_split_brain_occurs:
  assumes "3 \<le> l_nodes m" "l_nodes m < 32" "2 \<le> l_max_term m" "\<not> fencing m"
  shows "\<exists>s. leadership_explored m s \<and> \<not> no_split_brain s"
proof -
  obtain msk where e: "electorate_of m msk" using electorate_exists [OF assms(1,2)] by blast
  let ?s = "elect m (leadership_start m) 1 msk"
  have "split_brain (commit (commit ?s 1) 0)"
    using elected_facts [OF assms(1) e] by (simp add: commit_def Let_def)
  then show ?thesis
    using stale_commit_explored [OF assms(1,3) e assms(4)] by (auto simp: no_split_brain_def)
qed

lemma without_fencing_split_brain_occurs_witness:
  "\<exists>s. leadership_explored (leadership3 False) s \<and> \<not> no_split_brain s"
  by (rule without_fencing_split_brain_occurs) simp_all

text \<open>
  The split-brain check is not vacuous: a live writable leader below the current maximum
  term is reachable in every cluster of at least three nodes.
\<close>

lemma stale_writable_leader_reachable:
  assumes "3 \<le> l_nodes m" "l_nodes m < 32" "2 \<le> l_max_term m"
  shows "\<exists>s. leadership_explored m s \<and> stale_writable_leader_present s"
proof -
  obtain msk where e: "electorate_of m msk" using electorate_exists [OF assms(1,2)] by blast
  let ?s = "elect m (leadership_start m) 1 msk"
  note facts = elected_facts [OF assms(1) e]
  have "(2 :: u64) \<le> max_cur_term ?s"
  proof -
    have "cur_term ?s ! 1 \<in> set (cur_term ?s)" using facts(6) assms(1) by (intro nth_mem) auto
    then show ?thesis using facts(3) by (simp add: max_cur_term_def)
  qed
  then have "cur_term ?s ! 0 < max_cur_term ?s" using facts(1) one_plus_one_le by simp
  then have "stale_writable_leader_present ?s"
    using facts assms(1) by (auto simp: stale_writable_leader_present_def Let_def list_ex_iff)
  then show ?thesis using elected_explored [OF assms(1,3) e] by blast
qed

lemma stale_writable_leader_reachable_witness:
  "\<exists>s. leadership_explored (leadership3 True) s \<and> stale_writable_leader_present s"
  by (rule stale_writable_leader_reachable) simp_all

end
