(* ===== verification/ModelCheck.thy ===== *)
theory ModelCheck
  imports Durability Leadership
begin

text \<open>
  The model checker of \<open>packages/consensus-model\<close>: \<open>check\<close>, \<open>check_split_brain\<close> and \<open>main\<close>. The
  explorer (\<open>checker().spawn_bfs().join()\<close> of the stateright library) is a parameter; what the
  program relies on is that it reports a discovery exactly for the properties that some explored
  state decides. What is printed besides the verdict is left out.
\<close>

section \<open>The explorer\<close>

datatype expectation = Always | Sometimes

record checked =
  unique_states :: nat
  discovery :: "string \<Rightarrow> bool"

type_synonym 's properties = "(expectation \<times> string \<times> ('s \<Rightarrow> bool)) list"

type_synonym ('s, 'a) explorer = "'s list \<Rightarrow> ('s \<Rightarrow> 'a list) \<Rightarrow> ('s \<Rightarrow> 'a \<Rightarrow> 's option) \<Rightarrow>
  ('s \<Rightarrow> bool) \<Rightarrow> 's properties \<Rightarrow> checked"

text \<open>An \<open>always\<close> property is discovered by a counterexample, a \<open>sometimes\<close> one by an example.\<close>

definition decides :: "expectation \<Rightarrow> ('s \<Rightarrow> bool) \<Rightarrow> 's \<Rightarrow> bool" where
  "decides e P s \<longleftrightarrow> (case e of Always \<Rightarrow> \<not> P s | Sometimes \<Rightarrow> P s)"

definition exhaustive :: "('s, 'a) explorer \<Rightarrow> bool" where
  "exhaustive explore \<longleftrightarrow> (\<forall>init acts nxt within props e name P.
     distinct (map (fst \<circ> snd) props) \<longrightarrow> (e, name, P) \<in> set props \<longrightarrow>
     discovery (explore init acts nxt within props) name \<longleftrightarrow>
       (\<exists>s. explored init acts nxt within s \<and> decides e P s))"

section \<open>The program\<close>

definition cluster_properties :: "dstate properties" where
  "cluster_properties =
     [(Always, ''no_acked_loss'', no_acked_loss), (Sometimes, ''failover_after_ack'', failover_after_ack)]"

definition leadership_properties :: "lstate properties" where
  "leadership_properties =
     [(Always, ''no_split_brain'', no_split_brain),
      (Sometimes, ''stale_writable_leader_present'', stale_writable_leader_present)]"

record summary =
  states :: nat
  safety_violated :: bool
  sometimes_met :: bool

definition check :: "(dstate, daction) explorer \<Rightarrow> nat \<Rightarrow> nat \<Rightarrow> u64 \<Rightarrow> u64 \<Rightarrow> summary" where
  "check explore n quorum lsn term =
     (let model = \<lparr>nodes = n, ack_quorum = quorum, max_lsn = lsn, max_term = term\<rparr>;
          r = explore (cluster_init_states model) (cluster_actions model) (cluster_next_state model)
                (cluster_within_boundary model) cluster_properties
      in \<lparr>states = unique_states r, safety_violated = discovery r ''no_acked_loss'',
          sometimes_met = discovery r ''failover_after_ack''\<rparr>)"

definition check_split_brain :: "(lstate, laction) explorer \<Rightarrow> nat \<Rightarrow> u64 \<Rightarrow> bool \<Rightarrow> summary" where
  "check_split_brain explore n term fenced =
     (let model = \<lparr>l_nodes = n, l_max_term = term, fencing = fenced\<rparr>;
          r = explore (leadership_init_states model) (leadership_actions model)
                (leadership_next_state model) (leadership_within_boundary model) leadership_properties
      in \<lparr>states = unique_states r, safety_violated = discovery r ''no_split_brain'',
          sometimes_met = discovery r ''stale_writable_leader_present''\<rparr>)"

definition pass :: "summary \<Rightarrow> bool" where
  "pass s \<longleftrightarrow> \<not> safety_violated s \<and> sometimes_met s"

text \<open>The exit code of \<open>main\<close>.\<close>

definition model_check_main ::
    "(dstate, daction) explorer \<Rightarrow> (lstate, laction) explorer \<Rightarrow> int" where
  "model_check_main explore explore_leadership =
     (let ok = True;
          ok = foldl (\<lambda>ok n. ok \<and> pass (check explore n (n div 2 + 1) 3 (of_nat n))) ok [3, 5];
          ok = (ok \<and> safety_violated (check explore 3 1 3 3));
          ok = foldl (\<lambda>ok (n, term). ok \<and> pass (check_split_brain explore_leadership n term True)) ok
                 [(3, 4), (5, 3)];
          ok = (ok \<and> safety_violated (check_split_brain explore_leadership 3 4 False))
      in if ok then 0 else 1)"

section \<open>The verdict\<close>

lemma exhaustive_discovery:
  assumes "exhaustive explore" "distinct (map (fst \<circ> snd) props)" "(e, name, P) \<in> set props"
  shows "discovery (explore init acts nxt within props) name \<longleftrightarrow>
    (\<exists>s. explored init acts nxt within s \<and> decides e P s)"
  using assms unfolding exhaustive_def by blast

lemma check_verdict:
  fixes n q :: nat and l t :: u64
  assumes "exhaustive explore"
  defines "model \<equiv> \<lparr>nodes = n, ack_quorum = q, max_lsn = l, max_term = t\<rparr>"
  shows "safety_violated (check explore n q l t) \<longleftrightarrow> (\<exists>s. cluster_explored model s \<and> \<not> no_acked_loss s)"
    "sometimes_met (check explore n q l t) \<longleftrightarrow> (\<exists>s. cluster_explored model s \<and> failover_after_ack s)"
proof -
  have d: "distinct (map (fst \<circ> snd) cluster_properties)" by (simp add: cluster_properties_def)
  have m: "(Always, ''no_acked_loss'', no_acked_loss) \<in> set cluster_properties"
    "(Sometimes, ''failover_after_ack'', failover_after_ack) \<in> set cluster_properties"
    by (simp_all add: cluster_properties_def)
  show "safety_violated (check explore n q l t) \<longleftrightarrow> (\<exists>s. cluster_explored model s \<and> \<not> no_acked_loss s)"
    "sometimes_met (check explore n q l t) \<longleftrightarrow> (\<exists>s. cluster_explored model s \<and> failover_after_ack s)"
    unfolding check_def Let_def summary.simps
    by (simp_all add: exhaustive_discovery [OF assms(1) d m(1)] exhaustive_discovery [OF assms(1) d m(2)]
        decides_def model_def)
qed

lemma check_split_brain_verdict:
  fixes n :: nat and t :: u64 and f :: bool
  assumes "exhaustive explore"
  defines "model \<equiv> \<lparr>l_nodes = n, l_max_term = t, fencing = f\<rparr>"
  shows "safety_violated (check_split_brain explore n t f) \<longleftrightarrow>
      (\<exists>s. leadership_explored model s \<and> \<not> no_split_brain s)"
    "sometimes_met (check_split_brain explore n t f) \<longleftrightarrow>
      (\<exists>s. leadership_explored model s \<and> stale_writable_leader_present s)"
proof -
  have d: "distinct (map (fst \<circ> snd) leadership_properties)" by (simp add: leadership_properties_def)
  have m: "(Always, ''no_split_brain'', no_split_brain) \<in> set leadership_properties"
    "(Sometimes, ''stale_writable_leader_present'', stale_writable_leader_present) \<in> set leadership_properties"
    by (simp_all add: leadership_properties_def)
  show "safety_violated (check_split_brain explore n t f) \<longleftrightarrow>
      (\<exists>s. leadership_explored model s \<and> \<not> no_split_brain s)"
    "sometimes_met (check_split_brain explore n t f) \<longleftrightarrow>
      (\<exists>s. leadership_explored model s \<and> stale_writable_leader_present s)"
    unfolding check_split_brain_def Let_def summary.simps
    by (simp_all add: exhaustive_discovery [OF assms(1) d m(1)] exhaustive_discovery [OF assms(1) d m(2)]
        decides_def model_def)
qed

text \<open>
  Every sound configuration passes and every negative control fails, for any size below 32.
\<close>

lemma check_passes:
  assumes "exhaustive explore" "3 \<le> n" "n < 32" "1 \<le> l" "1 \<le> t"
  shows "pass (check explore n (n div 2 + 1) l t)"
proof -
  let ?c = "\<lparr>nodes = n, ack_quorum = n div 2 + 1, max_lsn = l, max_term = t\<rparr>"
  have "0 < nodes ?c" "cluster_majority ?c \<le> ack_quorum ?c" using assms(2) by (simp_all add: cluster_majority_def)
  then have "cluster_explored ?c s \<Longrightarrow> no_acked_loss s" for s
    using sync_quorum_loses_no_acked_transaction by blast
  moreover have "\<exists>s. cluster_explored ?c s \<and> failover_after_ack s"
    using assms by (intro failover_after_ack_reachable) (simp_all add: cluster_majority_def)
  ultimately show ?thesis unfolding pass_def check_verdict [OF assms(1)] by blast
qed

lemma check_fails_below_majority:
  assumes "exhaustive explore" "0 < n" "n < 32" "1 \<le> q" "q \<le> n - (n div 2 + 1)" "1 \<le> l" "1 \<le> t"
  shows "safety_violated (check explore n q l t)"
  unfolding check_verdict [OF assms(1)]
  using assms by (intro small_quorum_loses) (auto simp: cluster_majority_def)

lemma check_split_brain_passes:
  assumes "exhaustive explore" "3 \<le> n" "n < 32" "2 \<le> t"
  shows "pass (check_split_brain explore n t True)"
proof -
  let ?m = "\<lparr>l_nodes = n, l_max_term = t, fencing = True\<rparr>"
  have "0 < l_nodes ?m" "fencing ?m" using assms(2) by simp_all
  then have "leadership_explored ?m s \<Longrightarrow> no_split_brain s" for s
    using fenced_safe by blast
  moreover have "\<exists>s. leadership_explored ?m s \<and> stale_writable_leader_present s"
    using assms by (intro stale_writable_leader_reachable) simp_all
  ultimately show ?thesis unfolding pass_def check_split_brain_verdict [OF assms(1)] by blast
qed

lemma check_split_brain_fails:
  assumes "exhaustive explore" "3 \<le> n" "n < 32" "2 \<le> t"
  shows "safety_violated (check_split_brain explore n t False)"
  unfolding check_split_brain_verdict [OF assms(1)]
  using assms by (intro without_fencing_split_brain_occurs) simp_all

text \<open>An explorer that is exhaustive.\<close>

definition ideal_explorer :: "('s, 'a) explorer" where
  "ideal_explorer init acts nxt within props =
     \<lparr>unique_states = card {s. explored init acts nxt within s},
      discovery = (\<lambda>name. \<exists>(e, nm, P) \<in> set props. nm = name \<and>
        (\<exists>s. explored init acts nxt within s \<and> decides e P s))\<rparr>"

lemma ideal_explorer: "exhaustive (ideal_explorer :: ('s, 'a) explorer)"
  unfolding exhaustive_def
proof (intro allI impI)
  fix init :: "'s list" and acts and nxt :: "'s \<Rightarrow> 'a \<Rightarrow> 's option" and within
    and props :: "'s properties" and e name P
  assume d: "distinct (map (fst \<circ> snd) props)" and m: "(e, name, P) \<in> set props"
  let ?Q = "\<lambda>e P. \<exists>s. explored init acts nxt within s \<and> decides e P s"
  have "x = (e, name, P)" if "x \<in> set props" "fst (snd x) = name" for x
    using d m that inj_onD [of "fst \<circ> snd" "set props" x "(e, name, P)"] by (simp add: distinct_map)
  then have "(\<exists>x \<in> set props. fst (snd x) = name \<and> ?Q (fst x) (snd (snd x))) \<longleftrightarrow> ?Q e P"
    using m by (metis fst_conv snd_conv)
  then show "discovery (ideal_explorer init acts nxt within props) name \<longleftrightarrow> ?Q e P"
    by (simp add: ideal_explorer_def case_prod_unfold)
qed

text \<open>
  C20: The model checker passes, and for a reason: run with an explorer that visits all states
  within the bounds, every sound configuration of the program is safe and not vacuous, both
  negative controls produce counterexamples, and \<open>main\<close> exits with 0; the same holds for each
  kind of configuration at any number of nodes from 3 to 31 (beyond, the masks overflow) and at
  any bounds of at least one write and two terms.
\<close>

theorem model_check_passes:
  assumes "exhaustive explore" "exhaustive explore_leadership"
  shows "model_check_main explore explore_leadership = 0 \<and>
    (\<forall>n \<in> {3..31}. \<forall>l \<ge> 1. \<forall>t \<ge> 2.
       pass (check explore n (n div 2 + 1) l t) \<and> pass (check_split_brain explore_leadership n t True) \<and>
       safety_violated (check explore n 1 l t) \<and>
       safety_violated (check_split_brain explore_leadership n t False))"
proof -
  have u64: "(1 :: u64) \<le> t" if "2 \<le> t" for t using one_plus_one_le(2) [OF that] .
  have all: "pass (check explore n (n div 2 + 1) l t) \<and> pass (check_split_brain explore_leadership n t True) \<and>
       safety_violated (check explore n 1 l t) \<and> safety_violated (check_split_brain explore_leadership n t False)"
    if "3 \<le> n" "n < 32" "1 \<le> l" "2 \<le> t" for n l t
    using that one_plus_one_le check_passes [OF assms(1)] check_split_brain_passes [OF assms(2)]
      check_fails_below_majority [OF assms(1), of n 1 l t] check_split_brain_fails [OF assms(2)]
    by auto
  have main: "model_check_main explore explore_leadership = 0"
    using all [of 3 3 3] all [of 5 3 5] all [of 3 3 4] all [of 5 3 3]
    by (simp add: model_check_main_def word_le_nat_alt)
  show ?thesis using main all by auto
qed

theorem model_check_passes_witness:
  "model_check_main ideal_explorer ideal_explorer = 0 \<and> pass (check ideal_explorer 7 4 3 7)"
proof -
  note all = model_check_passes [OF ideal_explorer ideal_explorer]
  have "pass (check ideal_explorer 7 (7 div 2 + 1) 3 7)"
    using conjunct2 [OF all, THEN bspec, of 7, THEN spec, of 3, THEN mp, THEN spec, of 7]
    by (simp add: word_le_nat_alt)
  then show ?thesis using all by simp
qed

text \<open>
  C28: With 32 nodes (or any multiple of 32) the durability check would be vacuous: the shift that
  makes the range of masks wraps around in the release build, so no failover is ever explored,
  and \<open>check\<close> reports neither a violation, however small the quorum, nor that the interesting
  state was reached. The program itself checks 3 and 5 nodes.
\<close>

theorem model_check_is_vacuous_at_32_nodes:
  assumes "exhaustive explore" "0 < n" "n mod 32 = 0"
  shows "\<not> safety_violated (check explore n q l t) \<and> \<not> sometimes_met (check explore n q l t)"
proof -
  have "first_primary \<lparr>nodes = n, ack_quorum = q, max_lsn = l, max_term = t\<rparr> s"
    if "cluster_explored \<lparr>nodes = n, ack_quorum = q, max_lsn = l, max_term = t\<rparr> s" for s
    using overflowed.explored_inv [OF that] assms(2,3) by simp
  then show ?thesis
    unfolding check_verdict [OF assms(1)]
    by (fastforce simp: first_primary_def no_acked_loss_def failover_after_ack_def)
qed

theorem model_check_is_vacuous_at_32_nodes_witness:
  "\<not> safety_violated (check ideal_explorer 32 0 3 3) \<and> \<not> sometimes_met (check ideal_explorer 32 0 3 3)"
  by (rule model_check_is_vacuous_at_32_nodes [OF ideal_explorer]) simp_all

end
