(* ===== verification/Clients.thy ===== *)
theory Clients
  imports Addresses
begin

text \<open>
  The two client programs of the test harness: \<open>packages/chaos-writer\<close>, whose printed ids are the
  oracle of the durability tests, as a step relation over what its environment does (stop file,
  connection, result of an insert), and \<open>packages/failover-probe\<close>, as a function of the answers
  it gets. The PostgreSQL client library is the environment.
\<close>

section \<open>The chaos writer\<close>

text \<open>Where the loop stands: before the outer test, before the inner one, or after both.\<close>

datatype writer_pc = Outer | Inner | Ended

record writer =
  w_pc :: writer_pc
  w_id :: "64 word"
  w_inserts :: "(64 word \<times> bool) list"
  w_printed :: "64 word list"

definition writer_init :: writer where
  "writer_init = \<lparr>w_pc = Outer, w_id = 0, w_inserts = [], w_printed = []\<rparr>"

text \<open>
  The arguments after the program's name; the first has to parse as a connection string. The
  writer panics otherwise.
\<close>

definition writer_start :: "(string \<Rightarrow> bool) \<Rightarrow> string list \<Rightarrow> writer option" where
  "writer_start parses argv =
     (case argv of
        conninfo # stop_file # _ \<Rightarrow> if parses conninfo then Some writer_init else None
      | _ \<Rightarrow> None)"

text \<open>An insert of the next id, and printing it when the insert was acknowledged.\<close>

definition writer_insert :: "bool \<Rightarrow> writer \<Rightarrow> writer" where
  "writer_insert acked w =
     (let i = w_id w + 1; w1 = w\<lparr>w_id := i, w_inserts := w_inserts w @ [(i, acked)]\<rparr>
      in if acked then w1\<lparr>w_printed := w_printed w1 @ [i]\<rparr> else w1\<lparr>w_pc := Outer\<rparr>)"

inductive writer_step :: "writer \<Rightarrow> writer \<Rightarrow> bool" where
  stop: "w_pc w = Outer \<Longrightarrow> writer_step w (w\<lparr>w_pc := Ended\<rparr>)"
| connect_error: "w_pc w = Outer \<Longrightarrow> writer_step w w"
| connected: "w_pc w = Outer \<Longrightarrow> writer_step w (w\<lparr>w_pc := Inner\<rparr>)"
| insert_acked: "w_pc w = Inner \<Longrightarrow> writer_step w (writer_insert True w)"
| insert_error: "w_pc w = Inner \<Longrightarrow> writer_step w (writer_insert False w)"
| inner_stop: "w_pc w = Inner \<Longrightarrow> writer_step w (w\<lparr>w_pc := Outer\<rparr>)"

inductive_simps ended_step: "writer_step \<lparr>w_pc = Ended, w_id = i, w_inserts = xs, w_printed = ys\<rparr> w'"

text \<open>The writer ends for good: nothing is inserted after the stop file was seen.\<close>

lemma ended_is_final: "w_pc w = Ended \<Longrightarrow> \<not> writer_step w w'"
  by (cases w) (simp add: ended_step)

abbreviation writer_run :: "writer \<Rightarrow> bool" where
  "writer_run w \<equiv> writer_step\<^sup>*\<^sup>* writer_init w"

text \<open>
  The invariant: the \<open>k\<close>-th insert is of id \<open>k\<close>, the counter is the number of inserts, and the
  printed ids are the acknowledged ones.
\<close>

definition writer_ok :: "writer \<Rightarrow> bool" where
  "writer_ok w \<longleftrightarrow>
     w_id w = of_nat (length (w_inserts w)) \<and>
     map fst (w_inserts w) = map of_nat [1..<length (w_inserts w) + 1] \<and>
     w_printed w = map fst (filter snd (w_inserts w))"

lemma writer_ok_insert: "writer_ok w \<Longrightarrow> writer_ok (writer_insert a w)"
  by (auto simp: writer_ok_def writer_insert_def Let_def add.commute)

lemma writer_ok_step: "writer_step w w' \<Longrightarrow> writer_ok w \<Longrightarrow> writer_ok w'"
  by (induction rule: writer_step.induct) (auto simp: writer_ok_insert, auto simp: writer_ok_def)

lemma writer_ok_init: "writer_ok writer_init"
  by (simp add: writer_ok_def writer_init_def)

lemma writer_ok_run: "writer_run w \<Longrightarrow> writer_ok w"
  by (induction rule: rtranclp_induct) (auto intro: writer_ok_step writer_ok_init)

text \<open>Below \<open>2\<^sup>6\<^sup>3\<close> inserts the ids do not wrap.\<close>

lemma sint_small: "k < 2 ^ 63 \<Longrightarrow> sint (of_nat k :: 64 word) = int k"
  by (simp add: sint_uint unsigned_of_nat take_bit_nat_eq_self signed_take_bit_int_eq_self)

lemma increasing_distinct: "sorted_wrt (\<lambda>x y. sint x < sint (y :: 64 word)) xs \<Longrightarrow> distinct xs"
  by (induction xs) auto

text \<open>
  C40: The ids the writer prints are a sound oracle: within \<open>2\<^sup>6\<^sup>3\<close> inserts, in every reachable
  state, they are positive and strictly increasing, hence never printed twice, each was inserted
  exactly once and acknowledged, and every acknowledged insert was printed; the id of an insert
  that failed is never used again.
\<close>

theorem printed_ids_are_the_acknowledged_ones:
  assumes "writer_run w" "length (w_inserts w) < 2 ^ 63"
  shows "sorted_wrt (\<lambda>x y. sint x < sint y) (map fst (w_inserts w)) \<and>
    (\<forall>i \<in> set (map fst (w_inserts w)). 0 < sint i) \<and>
    sorted_wrt (\<lambda>x y. sint x < sint y) (w_printed w) \<and>
    set (w_printed w) = {i. (i, True) \<in> set (w_inserts w)} \<and>
    (\<forall>i. (i, False) \<in> set (w_inserts w) \<longrightarrow> i \<notin> set (w_printed w))"
proof -
  note ok = writer_ok_run [OF assms(1), unfolded writer_ok_def]
  have ids: "map fst (w_inserts w) = map of_nat [1..<length (w_inserts w) + 1]"
    and printed: "w_printed w = map fst (filter snd (w_inserts w))" using ok by auto
  have small: "sint (of_nat k :: 64 word) = int k" if "k \<in> set [1..<length (w_inserts w) + 1]" for k
    using that assms(2) by (intro sint_small) auto
  have inc: "sorted_wrt (\<lambda>x y. sint x < sint y) (map fst (w_inserts w))"
    unfolding ids sorted_wrt_map
    by (rule sorted_wrt_mono_rel [OF _ sorted_wrt_upt]) (simp add: small)
  have pos: "\<forall>i \<in> set (map fst (w_inserts w)). 0 < sint i" unfolding ids using small by auto
  have inc2: "sorted_wrt (\<lambda>x y. sint x < sint y) (w_printed w)"
    using inc unfolding printed sorted_wrt_map by (rule sorted_wrt_filter)
  have once: "a = b" if "(i, a) \<in> set (w_inserts w)" "(i, b) \<in> set (w_inserts w)" for i a b
  proof -
    have "distinct (map fst (w_inserts w))"
      using inc by (rule increasing_distinct)
    then show ?thesis using that by (metis map_of_eq_Some_iff option.inject)
  qed
  show ?thesis using inc pos inc2 once unfolding printed by force
qed

text \<open>One failed insert between two acknowledged ones.\<close>

definition writer_ex :: writer where
  "writer_ex = \<lparr>w_pc = Inner, w_id = 3, w_inserts = [(1, True), (2, False), (3, True)], w_printed = [1, 3]\<rparr>"

lemma writer_ex: "writer_run writer_ex"
proof -
  let ?a = "writer_init\<lparr>w_pc := Inner\<rparr>"
  let ?b = "writer_insert True ?a"
  let ?c = "writer_insert False ?b"
  let ?d = "?c\<lparr>w_pc := Inner\<rparr>"
  note defs = writer_init_def writer_insert_def Let_def
  have "writer_step writer_init ?a" by (rule connected) (simp add: defs)
  moreover have "writer_step ?a ?b" by (rule insert_acked) (simp add: defs)
  moreover have "writer_step ?b ?c" by (rule insert_error) (simp add: defs)
  moreover have "writer_step ?c ?d" by (rule connected) (simp add: defs)
  moreover have "writer_step ?d (writer_insert True ?d)" by (rule insert_acked) (simp add: defs)
  ultimately have "writer_run (writer_insert True ?d)"
    by (meson rtranclp.rtrancl_into_rtrancl rtranclp.rtrancl_refl)
  then show ?thesis by (simp add: defs writer_ex_def)
qed

theorem printed_ids_are_the_acknowledged_ones_witness:
  "set (w_printed writer_ex) = {i. (i, True) \<in> set (w_inserts writer_ex)} \<and> w_printed writer_ex = [1, 3]"
  using printed_ids_are_the_acknowledged_ones [OF writer_ex] by (simp add: writer_ex_def)

section \<open>The failover probe\<close>

record row =
  r_port :: int
  r_in_recovery :: bool
  r_node :: string

text \<open>What the library answers, as a function of the connection string and the inserted text.\<close>

record probe_env =
  pe_parse :: "string \<Rightarrow> (string, unit) result"
  pe_connect :: "string \<Rightarrow> (string, unit) result"
  pe_query :: "row option"
  pe_insert :: "string \<Rightarrow> bool"

datatype probe_end = Panicked | Exited int "string list"

text \<open>The end of the program with what it printed on standard output, and the inserts it tried.\<close>

definition failover_probe :: "probe_env \<Rightarrow> string list \<Rightarrow> probe_end \<times> string list" where
  "failover_probe env argv =
     (case argv of
        [] \<Rightarrow> (Panicked, [])
      | conninfo # more_args \<Rightarrow>
          (let label = (case more_args of l # _ \<Rightarrow> l | [] \<Rightarrow> ''x'') in
           case pe_parse env conninfo of
             Err _ \<Rightarrow> (Exited 2 [], [])
           | Ok _ \<Rightarrow>
               (case pe_connect env conninfo of
                  Err e \<Rightarrow> (Exited 1 [''NO_RW_HOST '' @ e], [])
                | Ok _ \<Rightarrow>
                    (case pe_query env of
                       None \<Rightarrow> (Panicked, [])
                     | Some r \<Rightarrow>
                         (let txt = ''routed-'' @ label
                          in if pe_insert env txt
                             then (Exited 0 [''OK node='' @ r_node r @ '' port='' @ show_int (r_port r)
                                     @ '' in_recovery='' @ show_bool (r_in_recovery r)], [txt])
                             else (Panicked, [txt]))))))"

text \<open>
  The probe reports success only after a write went through: it exits with 0 exactly when
  the connection string parsed, a writable host was found, the server described itself and
  accepted the row; it then printed one line, and it tried that one insert. It exits with 1
  exactly when no writable host was found, and tried no insert then.
\<close>

lemma probe_succeeds_iff_written:
  "((\<exists>out ins. failover_probe env (conninfo # label # rest) = (Exited 0 out, ins)) \<longleftrightarrow>
      is_ok (pe_parse env conninfo) \<and> is_ok (pe_connect env conninfo) \<and> pe_query env \<noteq> None \<and>
      pe_insert env (''routed-'' @ label)) \<and>
   (\<forall>out ins. failover_probe env (conninfo # label # rest) = (Exited 0 out, ins) \<longrightarrow>
      length out = 1 \<and> ins = [''routed-'' @ label]) \<and>
   ((\<exists>out ins. failover_probe env (conninfo # label # rest) = (Exited 1 out, ins)) \<longleftrightarrow>
      is_ok (pe_parse env conninfo) \<and> \<not> is_ok (pe_connect env conninfo)) \<and>
   (\<forall>out ins. failover_probe env (conninfo # label # rest) = (Exited 1 out, ins) \<longrightarrow> ins = [])"
  by (auto simp: failover_probe_def Let_def is_ok_def split: sum.split option.split)

end
